theory Spec2Isabelle
  imports Complex_Main "HOL-Library.Sublist"
begin

section \<open>Strings, configuration and state of the web fetcher\<close>

text \<open>
  A Python \<open>str\<close> is a sequence of Unicode code points and \<open>len\<close> counts code points.
  The source labels of \<open>web_fetcher.py\<close> contain an em dash (code point 8212), which is
  not a \<open>char\<close>; a string is therefore modelled as the list of its code points, and
  \<open>u\<close> embeds an ASCII literal.
\<close>

type_synonym ustring = "nat list"

definition u :: "string \<Rightarrow> ustring" where
  "u s = map of_char s"

definition emdash :: ustring where
  "emdash = [8212]"

text \<open>A source descriptor: the dictionaries \<open>{"url": ..., "label": ...}\<close>.\<close>

record source =
  url :: ustring
  label :: ustring

definition CACHE_TTL :: real where
  "CACHE_TTL = 3600"

definition MIN_CONTENT_LEN :: nat where
  "MIN_CONTENT_LEN = 100"

definition MAX_CHARS_PER_SOURCE :: nat where
  "MAX_CHARS_PER_SOURCE = 3500"

definition rti_sources :: "source list" where
  "rti_sources =
    [\<lparr>url = u ''https://rtionline.gov.in/'',
      label = u ''RTI Online Portal '' @ emdash @ u '' Official Portal (NIC / DoPT)''\<rparr>,
     \<lparr>url = u ''https://cic.gov.in/'',
      label = u ''Central Information Commission (CIC) '' @ emdash @ u '' Official Portal''\<rparr>,
     \<lparr>url = u ''https://doj.gov.in/right-to-information'',
      label = u ''Department of Justice '' @ emdash @ u '' Right to Information''\<rparr>,
     \<lparr>url = u ''https://www.indiacode.nic.in/handle/123456789/1879'',
      label = u ''India Code '' @ emdash
        @ u '' Right to Information Act 2005 (Official Legislation Repository)''\<rparr>]"

definition dv_sources :: "source list" where
  "dv_sources =
    [\<lparr>url = u ''https://www.indiacode.nic.in/handle/123456789/15436'',
      label = u ''India Code '' @ emdash
        @ u '' Protection of Women from Domestic Violence Act 2005''\<rparr>,
     \<lparr>url = u ''https://nalsa.gov.in/'',
      label = u ''National Legal Services Authority (NALSA) '' @ emdash @ u '' Free Legal Aid''\<rparr>,
     \<lparr>url = u ''https://cic.gov.in/'',
      label = u ''Central Information Commission '' @ emdash @ u '' Legal Resources''\<rparr>]"

definition divorce_sources :: "source list" where
  "divorce_sources =
    [\<lparr>url = u ''https://www.indiacode.nic.in/handle/123456789/2055'',
      label = u ''India Code '' @ emdash
        @ u '' Hindu Marriage Act 1955 (Official Legislation Repository)''\<rparr>,
     \<lparr>url = u ''https://nalsa.gov.in/'',
      label = u ''National Legal Services Authority (NALSA) '' @ emdash
        @ u '' Free Legal Aid for Family Disputes''\<rparr>,
     \<lparr>url = u ''https://doj.gov.in/right-to-information'',
      label = u ''Department of Justice '' @ emdash @ u '' Legal Resources''\<rparr>]"

text \<open>The dictionary \<open>GOVERNMENT_SOURCES\<close>, keyed by intent.\<close>

definition GOVERNMENT_SOURCES :: "ustring \<rightharpoonup> source list" where
  "GOVERNMENT_SOURCES =
     [u ''RTI'' \<mapsto> rti_sources,
      u ''Domestic Violence'' \<mapsto> dv_sources,
      u ''Divorce'' \<mapsto> divorce_sources]"

text \<open>
  The module-level \<open>_cache\<close> maps a URL to the pair (text, timestamp). \<open>time.time()\<close>
  is read as a real number of seconds. The field \<open>requests\<close> is a ghost log of the URLs
  for which \<open>client.get\<close> was called, in call order; the source keeps no such log, it
  records the network calls the claims speak about.
\<close>

record state =
  cache :: "ustring \<rightharpoonup> ustring \<times> real"
  requests :: "ustring list"

text \<open>
  Exceptions that can surface inside \<open>_fetch_one\<close>. \<open>CancelledError\<close> stands for the
  exceptions that derive from \<open>BaseException\<close> only, which \<open>except Exception\<close> does not
  catch; the other three are subclasses of \<open>Exception\<close>.
\<close>

datatype exn = TimeoutException | NetworkError | OtherException | CancelledError

fun is_Exception :: "exn \<Rightarrow> bool" where
  "is_Exception CancelledError = False"
| "is_Exception _ = True"

text \<open>How \<open>await client.get(url, headers=_HEADERS)\<close> ends: a response with its status
  code and body, or a raised exception.\<close>

datatype reply = Response int ustring | Raises exn

text \<open>
  What one run of \<open>_fetch_one\<close> reads from the outside world: the clock at the cache
  check, the end of the GET (read only on a cache miss) and the clock at the cache store.
\<close>

record fetch_io =
  check_time :: real
  reply :: reply
  store_time :: real

text \<open>The value of an awaited \<open>_fetch_one\<close>: \<open>Inr None\<close> is Python's \<open>None\<close>,
  \<open>Inr (Some s)\<close> a string, \<open>Inl e\<close> an exception that left the coroutine.\<close>

type_synonym fetched = "exn + ustring option"

section \<open>Fetching one source\<close>

text \<open>The f-string \<open>f"[Source: {label}]\n{text}"\<close>.\<close>

definition annotated :: "ustring \<Rightarrow> ustring \<Rightarrow> ustring" where
  "annotated lbl text = u ''[Source: '' @ lbl @ u '']'' @ [10] @ text"

text \<open>The cache check at the head of \<open>_fetch_one\<close>: the annotated cached text when the
  URL has an entry younger than \<open>CACHE_TTL\<close>.\<close>

definition cache_hit :: "fetch_io \<Rightarrow> state \<Rightarrow> source \<Rightarrow> ustring option" where
  "cache_hit io st src =
     (case cache st (url src) of
        None \<Rightarrow> None
      | Some (text, ts) \<Rightarrow>
          if check_time io - ts < CACHE_TTL then Some (annotated (label src) text) else None)"

text \<open>
  The body of the \<open>try\<close> block once the GET has ended. The HTML extractor
  \<open>_extract_text\<close> rests on an external parser and is a parameter \<open>ex\<close>; it may raise.
\<close>

definition try_body ::
  "(ustring \<Rightarrow> exn + ustring) \<Rightarrow> fetch_io \<Rightarrow> state \<Rightarrow> source \<Rightarrow> fetched \<times> state" where
  "try_body ex io st src =
     (case reply io of
        Raises e \<Rightarrow> (Inl e, st)
      | Response status_code body \<Rightarrow>
          if status_code \<noteq> 200 then (Inr None, st)
          else (case ex body of
                  Inl e \<Rightarrow> (Inl e, st)
                | Inr text \<Rightarrow>
                    if length text < MIN_CONTENT_LEN then (Inr None, st)
                    else (let text' = take MAX_CHARS_PER_SOURCE text
                          in (Inr (Some (annotated (label src) text')),
                              st\<lparr>cache := (cache st)(url src \<mapsto> (text', store_time io))\<rparr>))))"

text \<open>The \<open>try\<close> statement with its two handlers: the part of \<open>_fetch_one\<close> that runs
  when the awaited GET has ended.\<close>

definition resume ::
  "(ustring \<Rightarrow> exn + ustring) \<Rightarrow> fetch_io \<Rightarrow> state \<Rightarrow> source \<Rightarrow> fetched \<times> state" where
  "resume ex io st src =
     (case try_body ex io st src of
        (Inl e, st') \<Rightarrow>
          if e = TimeoutException \<or> e = NetworkError then (Inr None, st')
          else if is_Exception e then (Inr None, st')
          else (Inl e, st')
      | (Inr r, st') \<Rightarrow> (Inr r, st'))"

text \<open>\<open>_fetch_one\<close>, run from its call to its return.\<close>

definition fetch_one ::
  "(ustring \<Rightarrow> exn + ustring) \<Rightarrow> fetch_io \<Rightarrow> state \<Rightarrow> source \<Rightarrow> fetched \<times> state" where
  "fetch_one ex io st src =
     (case cache_hit io st src of
        Some r \<Rightarrow> (Inr (Some r), st)
      | None \<Rightarrow> resume ex io (st\<lparr>requests := requests st @ [url src]\<rparr>) src)"

section \<open>The fusion engine\<close>

text \<open>
  \<open>fetch_government_context\<close> wraps the three coroutines in tasks and awaits
  \<open>asyncio.gather\<close>. On the event loop each task first runs up to its \<open>await\<close> (the
  cache check, and on a miss the call of \<open>client.get\<close>); afterwards a task continues,
  and runs to its end without a further suspension point, when its GET has ended. A
  task is therefore finished with its value, or waiting for its GET.
\<close>

datatype task = Done fetched | Waiting

text \<open>The first segment of \<open>_fetch_one\<close>: up to the return of the cache hit, or up to
  the suspension in \<open>client.get\<close>.\<close>

definition start :: "fetch_io \<Rightarrow> state \<Rightarrow> source \<Rightarrow> task \<times> state" where
  "start io st src =
     (case cache_hit io st src of
        Some r \<Rightarrow> (Done (Inr (Some r)), st)
      | None \<Rightarrow> (Waiting, st\<lparr>requests := requests st @ [url src]\<rparr>))"

text \<open>The tasks are started in list order; task number \<open>i\<close> reads its world from
  \<open>io i\<close>.\<close>

fun dispatch :: "(nat \<Rightarrow> fetch_io) \<Rightarrow> nat \<Rightarrow> state \<Rightarrow> source list \<Rightarrow> task list \<times> state" where
  "dispatch io i st [] = ([], st)"
| "dispatch io i st (src # srcs) =
     (case start (io i) st src of
        (t, st1) \<Rightarrow> (case dispatch io (Suc i) st1 srcs of (ts, st2) \<Rightarrow> (t # ts, st2)))"

text \<open>The GET of task \<open>i\<close> ends: the task runs its second segment. An event for a task
  that is not waiting changes nothing.\<close>

definition deliver ::
  "(ustring \<Rightarrow> exn + ustring) \<Rightarrow> (nat \<Rightarrow> fetch_io) \<Rightarrow> source list
     \<Rightarrow> task list \<times> state \<Rightarrow> nat \<Rightarrow> task list \<times> state" where
  "deliver ex io srcs ts_st i =
     (case ts_st of (ts, st) \<Rightarrow>
        if i < length ts \<and> i < length srcs \<and> ts ! i = Waiting
        then (case resume ex (io i) st (srcs ! i) of (r, st') \<Rightarrow> (ts[i := Done r], st'))
        else (ts, st))"

text \<open>\<open>asyncio.gather(*tasks, return_exceptions=True)\<close>: the awaiting coroutine is
  resumed only when every task is finished, with the values in task order, exceptions
  included as values. \<open>None\<close> says that the await has not returned.\<close>

fun gather :: "task list \<Rightarrow> fetched list option" where
  "gather [] = Some []"
| "gather (Waiting # ts) = None"
| "gather (Done r # ts) = (case gather ts of None \<Rightarrow> None | Some rs \<Rightarrow> Some (r # rs))"

text \<open>The \<open>for src, result in zip(sources[:3], results)\<close> loop with its \<open>break\<close>.\<close>

fun accept ::
  "(source \<times> fetched) list \<Rightarrow> ustring list \<Rightarrow> ustring list \<Rightarrow> ustring list \<times> ustring list" where
  "accept [] combined sources_used = (combined, sources_used)"
| "accept ((src, result) # rest) combined sources_used =
     (case (case result of
              Inr (Some s) \<Rightarrow>
                if s \<noteq> [] then (combined @ [s], sources_used @ [label src])
                else (combined, sources_used)
            | _ \<Rightarrow> (combined, sources_used)) of
        (combined', sources_used') \<Rightarrow>
          if length combined' \<ge> 2 then (combined', sources_used')
          else accept rest combined' sources_used')"

text \<open>\<open>sep.join(parts)\<close>.\<close>

fun join :: "ustring \<Rightarrow> ustring list \<Rightarrow> ustring" where
  "join sep [] = []"
| "join sep [x] = x"
| "join sep (x # y # ys) = x @ sep @ join sep (y # ys)"

definition SEPARATOR :: ustring where
  "SEPARATOR = [10, 10] @ u ''---'' @ [10, 10]"

text \<open>
  The two lines \<open>tasks = [_fetch_one(client, src) for src in ...]\<close> and
  \<open>results = await asyncio.gather(*tasks, return_exceptions=True)\<close>. The list \<open>ord\<close>
  names, in the order in which they end, the tasks whose GET has ended so far.
\<close>

definition await_gather ::
  "(ustring \<Rightarrow> exn + ustring) \<Rightarrow> (nat \<Rightarrow> fetch_io) \<Rightarrow> nat list \<Rightarrow> state \<Rightarrow> source list
     \<Rightarrow> fetched list option \<times> state" where
  "await_gather ex io ord st srcs =
     (case foldl (deliver ex io srcs) (dispatch io 0 st srcs) ord of
        (ts, st') \<Rightarrow> (gather ts, st'))"

text \<open>
  \<open>fetch_government_context\<close>. The first component of the value is the returned pair
  \<open>(combined_text, sources_used)\<close>, or \<open>None\<close> while the function is still suspended
  in \<open>await asyncio.gather\<close>; the second is the state reached.
\<close>

definition fetch_government_context ::
  "(ustring \<Rightarrow> exn + ustring) \<Rightarrow> (nat \<Rightarrow> fetch_io) \<Rightarrow> nat list \<Rightarrow> state \<Rightarrow> ustring
     \<Rightarrow> (ustring \<times> ustring list) option \<times> state" where
  "fetch_government_context ex io ord st intent =
     (let sources = (case GOVERNMENT_SOURCES intent of None \<Rightarrow> [] | Some l \<Rightarrow> l)
      in if sources = [] then (Some ([], []), st)
         else (case await_gather ex io ord st (take 3 sources) of
                 (None, st') \<Rightarrow> (None, st')
               | (Some results, st') \<Rightarrow>
                   (case accept (zip (take 3 sources) results) [] [] of
                      (combined, sources_used) \<Rightarrow>
                        (Some (join SEPARATOR combined, sources_used), st'))))"

section \<open>The top-level fusion policy\<close>

text \<open>Exceptions of the Python runtime that the semantic retrieval can raise.\<close>

datatype py_error = KeyError | IndexError | TypeError

text \<open>
  The metadata dictionary of a chunk, and the answer of
  \<open>_collection.query(query_texts=[text], n_results=n, include=[...])\<close> as far as the
  pipeline reads it: the entries \<open>"documents"\<close> and \<open>"metadatas"\<close>, each absent or a
  list with one entry per query text. The index and its embedding function are external;
  the pipeline is given, for the text at hand, the answer \<open>query n\<close> to each
  \<open>n_results\<close>. An exception raised inside the index itself is outside this model.
\<close>

type_synonym metadata = "ustring \<rightharpoonup> ustring"

record query_result =
  documents :: "ustring list list option"
  metadatas :: "metadata list list option"

text \<open>The subscript \<open>results[key][0]\<close>: \<open>None\<close> is not subscriptable, and an empty
  list has no element 0.\<close>

definition first_entry :: "'a list option \<Rightarrow> py_error + 'a" where
  "first_entry v =
     (case v of None \<Rightarrow> Inl TypeError | Some [] \<Rightarrow> Inl IndexError | Some (x # _) \<Rightarrow> Inr x)"

text \<open>The loop of \<open>semantic_retrieve\<close> with the f-string
  \<open>"[" + meta['topic'] + " (em dash) " + meta['section'] + "]\n" + doc\<close>: the
  subscripts raise \<open>KeyError\<close> on a dictionary without the key.\<close>

fun context_parts :: "(ustring \<times> metadata) list \<Rightarrow> py_error + ustring list" where
  "context_parts [] = Inr []"
| "context_parts ((doc, meta) # rest) =
     (case meta (u ''topic'') of
        None \<Rightarrow> Inl KeyError
      | Some topic \<Rightarrow>
          (case meta (u ''section'') of
             None \<Rightarrow> Inl KeyError
           | Some sect \<Rightarrow>
               (case context_parts rest of
                  Inl e \<Rightarrow> Inl e
                | Inr parts \<Rightarrow>
                    Inr ((u ''['' @ topic @ u '' '' @ emdash @ u '' '' @ sect @ u '']'' @ [10] @ doc)
                         # parts))))"

text \<open>\<open>semantic_retrieve\<close>, given the answer of the index.\<close>

definition semantic_retrieve :: "query_result \<Rightarrow> py_error + ustring" where
  "semantic_retrieve results =
     (case first_entry (documents results) of
        Inl e \<Rightarrow> Inl e
      | Inr docs \<Rightarrow>
          (case first_entry (metadatas results) of
             Inl e \<Rightarrow> Inl e
           | Inr metas \<Rightarrow>
               (case context_parts (zip docs metas) of
                  Inl e \<Rightarrow> Inl e
                | Inr parts \<Rightarrow> Inr (join [10, 10] parts))))"

text \<open>The peek at the top chunk's topic, from the value of
  \<open>top_results["metadatas"]\<close>.\<close>

definition dominant_intent :: "metadata list list option \<Rightarrow> ustring" where
  "dominant_intent md =
     (case md of
        None \<Rightarrow> u ''RTI''
      | Some [] \<Rightarrow> u ''RTI''
      | Some ([] # _) \<Rightarrow> u ''RTI''
      | Some ((m # _) # _) \<Rightarrow> (case m (u ''topic'') of None \<Rightarrow> u ''RTI'' | Some t \<Rightarrow> t))"

text \<open>The three variables that Step 3 of \<open>_call_groq_analyze\<close> sets.\<close>

record fusion =
  context_source :: ustring
  sources_used :: "ustring list"
  fused_context :: ustring

definition fuse :: "ustring \<Rightarrow> ustring list \<Rightarrow> ustring \<Rightarrow> fusion" where
  "fuse web_context used rag_context =
     (if web_context \<noteq> [] \<and> length web_context \<ge> 300
      then \<lparr>context_source = u ''WEB+RAG'',
            sources_used = used,
            fused_context =
              u ''=== LIVE DATA FROM OFFICIAL GOVERNMENT PORTALS ==='' @ [10]
              @ web_context @ [10, 10]
              @ u ''=== ADDITIONAL CONTEXT FROM LEGAL KNOWLEDGE BASE ==='' @ [10]
              @ rag_context\<rparr>
      else \<lparr>context_source = u ''RAG'',
            sources_used = [],
            fused_context =
              u ''=== CONTEXT FROM LEGAL KNOWLEDGE BASE ==='' @ [10] @ rag_context\<rparr>)"

text \<open>
  Steps 1 to 3 of \<open>_call_groq_analyze\<close>: \<open>semantic_retrieve(text, n_results=3)\<close>, the
  top-1 query, the engine and the fusion. An exception of \<open>semantic_retrieve\<close> leaves
  the function before anything else runs. The first component of the value is \<open>None\<close>
  while the engine has not returned, \<open>Some (Inl e)\<close> when the exception \<open>e\<close> has left
  the function, and \<open>Some (Inr f)\<close> when Step 3 has set the three variables.
\<close>

definition call_groq_analyze ::
  "(ustring \<Rightarrow> exn + ustring) \<Rightarrow> (nat \<Rightarrow> fetch_io) \<Rightarrow> nat list \<Rightarrow> state
     \<Rightarrow> (nat \<Rightarrow> query_result) \<Rightarrow> (py_error + fusion) option \<times> state" where
  "call_groq_analyze ex io ord st query =
     (case semantic_retrieve (query 3) of
        Inl e \<Rightarrow> (Some (Inl e), st)
      | Inr rag_context \<Rightarrow>
          (case fetch_government_context ex io ord st (dominant_intent (metadatas (query 1))) of
             (None, st') \<Rightarrow> (None, st')
           | (Some (web_context, used), st') \<Rightarrow>
               (Some (Inr (fuse web_context used rag_context)), st')))"

section \<open>Notions used to state the properties\<close>

text \<open>The test \<open>isinstance(result, str) and result\<close> of the acceptance loop, and the
  string of a result that passes it.\<close>

definition usable :: "fetched \<Rightarrow> bool" where
  "usable r = (case r of Inr (Some s) \<Rightarrow> s \<noteq> [] | _ \<Rightarrow> False)"

definition text_of :: "fetched \<Rightarrow> ustring" where
  "text_of r = (case r of Inr (Some s) \<Rightarrow> s | _ \<Rightarrow> [])"

text \<open>The sources that one call of the engine works on: \<open>sources[:3]\<close>.\<close>

definition first_three :: "ustring \<Rightarrow> source list" where
  "first_three intent = take 3 (case GOVERNMENT_SOURCES intent of None \<Rightarrow> [] | Some l \<Rightarrow> l)"

text \<open>Every task has its value: it was served from the cache, or its GET is among those
  that have ended.\<close>

definition all_ended :: "(nat \<Rightarrow> fetch_io) \<Rightarrow> nat list \<Rightarrow> state \<Rightarrow> source list \<Rightarrow> bool" where
  "all_ended io ord st srcs =
     list_all (\<lambda>i. cache_hit (io i) st (srcs ! i) \<noteq> None \<or> i \<in> set ord) [0..<length srcs]"

text \<open>What \<open>_fetch_one\<close> yields for each source, in list order, when run on the state at
  the start of the call.\<close>

definition results_of ::
  "(ustring \<Rightarrow> exn + ustring) \<Rightarrow> (nat \<Rightarrow> fetch_io) \<Rightarrow> state \<Rightarrow> source list \<Rightarrow> fetched list" where
  "results_of ex io st srcs = map (\<lambda>i. fst (fetch_one ex (io i) st (srcs ! i))) [0..<length srcs]"

text \<open>The pairs of the acceptance loop whose result passes the test, in list order.\<close>

definition good :: "(source \<times> fetched) list \<Rightarrow> (source \<times> fetched) list" where
  "good zs = filter (\<lambda>z. usable (snd z)) zs"

text \<open>A small concrete world for the instances below: an empty cache, an extractor that
  hands the body back, a body of \<open>n\<close> letters, and a GET that answers 200 with it.\<close>

definition empty_state :: state where
  "empty_state = \<lparr>cache = Map.empty, requests = []\<rparr>"

definition ex_id :: "ustring \<Rightarrow> exn + ustring" where
  "ex_id body = Inr body"

definition page :: "nat \<Rightarrow> ustring" where
  "page n = replicate n 120"

definition io_ok :: "nat \<Rightarrow> fetch_io" where
  "io_ok n = \<lparr>check_time = 0, reply = Response 200 (page n), store_time = 1\<rparr>"

definition io_status :: "int \<Rightarrow> fetch_io" where
  "io_status code = \<lparr>check_time = 0, reply = Response code [], store_time = 1\<rparr>"

definition io_raises :: "exn \<Rightarrow> fetch_io" where
  "io_raises e = \<lparr>check_time = 0, reply = Raises e, store_time = 1\<rparr>"

definition io_at :: "real \<Rightarrow> nat \<Rightarrow> fetch_io" where
  "io_at t n = \<lparr>check_time = t, reply = Response 200 (page n), store_time = t\<rparr>"

text \<open>The answers of an index whose chunks, nearest first for the text at hand, are
  \<open>ranked\<close>; a chunk with both metadata keys and a chunk without the \<open>topic\<close> key.\<close>

definition ranked_query :: "(ustring \<times> metadata) list \<Rightarrow> nat \<Rightarrow> query_result" where
  "ranked_query ranked n =
     \<lparr>documents = Some [map fst (take n ranked)], metadatas = Some [map snd (take n ranked)]\<rparr>"

definition rti_chunk :: "ustring \<times> metadata" where
  "rti_chunk = (page 5, [u ''topic'' \<mapsto> u ''RTI'', u ''section'' \<mapsto> u ''Section 6(1)''])"

definition untagged_chunk :: "ustring \<times> metadata" where
  "untagged_chunk = (page 5, [u ''section'' \<mapsto> u ''Section 6(1)''])"

text \<open>The state after one successful fetch of the first RTI source at time 0.\<close>

definition warm_state :: state where
  "warm_state = \<lparr>cache = [url (rti_sources ! 0) \<mapsto> (page 150, 0)],
                  requests = [url (rti_sources ! 0)]\<rparr>"

section \<open>The acceptance loop\<close>

lemma accept_char:
  "length c < 2 \<Longrightarrow>
   accept zs c us =
     (c @ take (2 - length c) (map (\<lambda>z. text_of (snd z)) (filter (\<lambda>z. usable (snd z)) zs)),
      us @ take (2 - length c) (map (\<lambda>z. label (fst z)) (filter (\<lambda>z. usable (snd z)) zs)))"
proof (induction zs arbitrary: c us)
  case Nil
  then show ?case by simp
next
  case (Cons z zs)
  obtain src r where z: "z = (src, r)" by (cases z)
  show ?case
  proof (cases "usable r")
    case False
    then have step: "accept (z # zs) c us = accept zs c us"
      using Cons.prems by (auto simp: z usable_def split: sum.splits option.splits)
    have flt: "filter (\<lambda>z. usable (snd z)) (z # zs) = filter (\<lambda>z. usable (snd z)) zs"
      using False by (simp add: z)
    show ?thesis unfolding step flt using Cons.prems by (rule Cons.IH)
  next
    case True
    then obtain s where r: "r = Inr (Some s)" and s: "s \<noteq> []"
      by (auto simp: usable_def split: sum.splits option.splits)
    have t: "text_of (snd z) = s" "label (fst z) = label src" by (simp_all add: z r text_of_def)
    have flt: "filter (\<lambda>z. usable (snd z)) (z # zs) = z # filter (\<lambda>z. usable (snd z)) zs"
      using True by (simp add: z)
    show ?thesis
    proof (cases "length c = 0")
      case True
      then have step: "accept (z # zs) c us = accept zs (c @ [s]) (us @ [label src])"
        by (simp add: z r s)
      have ih: "accept zs (c @ [s]) (us @ [label src]) =
         ((c @ [s]) @ take (2 - length (c @ [s]))
             (map (\<lambda>z. text_of (snd z)) (filter (\<lambda>z. usable (snd z)) zs)),
          (us @ [label src]) @ take (2 - length (c @ [s]))
             (map (\<lambda>z. label (fst z)) (filter (\<lambda>z. usable (snd z)) zs)))"
        using True by (intro Cons.IH) simp
      show ?thesis unfolding step ih flt using True t by (simp add: numeral_2_eq_2)
    next
      case False
      then have l: "length c = 1" using Cons.prems by (cases c) auto
      then have step: "accept (z # zs) c us = (c @ [s], us @ [label src])"
        by (simp add: z r s)
      show ?thesis unfolding step flt using l t by simp
    qed
  qed
qed

section \<open>Dispatch, delivery and gather\<close>

lemma Done_map_eq: "map Done xs = map Done ys \<longleftrightarrow> xs = ys"
  by (rule inj_map_eq_map) (simp add: inj_on_def)

lemma gather_Some_iff: "gather ts = Some rs \<longleftrightarrow> ts = map Done rs"
proof (induction ts arbitrary: rs)
  case Nil
  then show ?case by auto
next
  case (Cons t ts)
  show ?case
  proof (cases t)
    case Waiting
    then show ?thesis by auto
  next
    case (Done r)
    show ?thesis
    proof (cases "gather ts")
      case None
      then have "\<not> (\<exists>rs'. ts = map Done rs')" using Cons.IH by simp
      then show ?thesis using None Done by (auto simp: Cons_eq_map_conv)
    next
      case (Some rs')
      then have "ts = map Done rs'" using Cons.IH by simp
      then show ?thesis using Some Done by (auto simp: Cons_eq_map_conv Done_map_eq)
    qed
  qed
qed

lemma gather_None_iff: "gather ts = None \<longleftrightarrow> Waiting \<in> set ts"
proof (induction ts)
  case Nil
  then show ?case by simp
next
  case (Cons t ts)
  then show ?case by (cases t) (auto split: option.splits)
qed

lemma start_cache: "cache (snd (start io st src)) = cache st"
  by (simp add: start_def split: option.splits)

lemma start_fst_cong: "cache st = cache st' \<Longrightarrow> fst (start io st src) = fst (start io st' src)"
  by (simp add: start_def cache_hit_def split: option.splits)

lemma dispatch_Cons_fst:
  "fst (dispatch io k st (s # srcs)) =
     fst (start (io k) st s) # fst (dispatch io (Suc k) (snd (start (io k) st s)) srcs)"
  by (simp add: case_prod_unfold)

lemma dispatch_Cons_snd:
  "snd (dispatch io k st (s # srcs)) = snd (dispatch io (Suc k) (snd (start (io k) st s)) srcs)"
  by (simp add: case_prod_unfold)

lemma dispatch_cache: "cache (snd (dispatch io k st srcs)) = cache st"
  by (induction srcs arbitrary: k st) (simp_all add: dispatch_Cons_snd start_cache del: dispatch.simps(2))

lemma dispatch_length: "length (fst (dispatch io k st srcs)) = length srcs"
  by (induction srcs arbitrary: k st) (simp_all add: dispatch_Cons_fst del: dispatch.simps(2))

lemma dispatch_nth:
  "i < length srcs \<Longrightarrow> fst (dispatch io k st srcs) ! i = fst (start (io (k + i)) st (srcs ! i))"
proof (induction srcs arbitrary: k st i)
  case Nil
  then show ?case by simp
next
  case (Cons s srcs)
  show ?case
  proof (cases i)
    case 0
    then show ?thesis by (simp add: dispatch_Cons_fst del: dispatch.simps(2))
  next
    case (Suc j)
    then have "j < length srcs" using Cons.prems by simp
    then have "fst (dispatch io (Suc k) (snd (start (io k) st s)) srcs) ! j
        = fst (start (io (Suc k + j)) (snd (start (io k) st s)) (srcs ! j))"
      by (rule Cons.IH)
    also have "\<dots> = fst (start (io (Suc k + j)) st (srcs ! j))"
      by (rule start_fst_cong) (rule start_cache)
    finally show ?thesis using Suc by (simp add: dispatch_Cons_fst del: dispatch.simps(2))
  qed
qed

lemma dispatch_requests:
  "\<exists>new. requests (snd (dispatch io k st srcs)) = requests st @ new \<and> subseq new (map url srcs)"
proof (induction srcs arbitrary: k st)
  case Nil
  then show ?case by simp
next
  case (Cons s srcs)
  define st1 where "st1 = snd (start (io k) st s)"
  from Cons.IH[of "Suc k" st1] obtain new where
    n: "requests (snd (dispatch io (Suc k) st1 srcs)) = requests st1 @ new" "subseq new (map url srcs)"
    by blast
  have "requests st1 = requests st \<or> requests st1 = requests st @ [url s]"
    by (auto simp: st1_def start_def split: option.splits)
  then show ?case
  proof
    assume "requests st1 = requests st"
    then have "requests (snd (dispatch io k st (s # srcs))) = requests st @ new"
      using n unfolding dispatch_Cons_snd st1_def by simp
    moreover have "subseq new (map url (s # srcs))" using n by (simp add: list_emb_Cons)
    ultimately show ?thesis by blast
  next
    assume "requests st1 = requests st @ [url s]"
    then have "requests (snd (dispatch io k st (s # srcs))) = requests st @ (url s # new)"
      using n unfolding dispatch_Cons_snd st1_def by simp
    moreover have "subseq (url s # new) (map url (s # srcs))" using n by simp
    ultimately show ?thesis by blast
  qed
qed

lemma try_body_fst: "fst (try_body ex io st src) = fst (try_body ex io st' src)"
  by (simp add: try_body_def Let_def split: reply.splits sum.splits)

lemma try_body_requests: "requests (snd (try_body ex io st src)) = requests st"
  by (simp add: try_body_def Let_def split: reply.splits sum.splits)

lemma resume_fst: "fst (resume ex io st src) = fst (resume ex io st' src)"
  using try_body_fst[of ex io st src st']
  by (cases "try_body ex io st src"; cases "try_body ex io st' src")
     (auto simp: resume_def split: sum.splits)

lemma resume_requests: "requests (snd (resume ex io st src)) = requests st"
  using try_body_requests[of ex io st src]
  by (cases "try_body ex io st src") (auto simp: resume_def split: sum.splits)

lemma fetch_one_fst:
  "fst (fetch_one ex io st src) =
     (case cache_hit io st src of Some r \<Rightarrow> Inr (Some r) | None \<Rightarrow> fst (resume ex io st src))"
  using resume_fst[of ex io "st\<lparr>requests := requests st @ [url src]\<rparr>" src st]
  by (simp add: fetch_one_def split: option.splits)

lemma start_fst:
  "fst (start io st src) =
     (case cache_hit io st src of Some r \<Rightarrow> Done (Inr (Some r)) | None \<Rightarrow> Waiting)"
  by (simp add: start_def split: option.splits)

lemma deliver_length: "length (fst (deliver ex io srcs p j)) = length (fst p)"
  by (cases p) (simp add: deliver_def case_prod_unfold)

lemma deliver_requests: "requests (snd (deliver ex io srcs p j)) = requests (snd p)"
  by (cases p) (simp add: deliver_def case_prod_unfold resume_requests)

lemma deliver_nth:
  assumes "i < length (fst p)" "length srcs = length (fst p)"
  shows "fst (deliver ex io srcs p j) ! i =
     (if i = j \<and> fst p ! i = Waiting then Done (fst (resume ex (io i) st0 (srcs ! i)))
      else fst p ! i)"
proof (cases p)
  case (Pair ts st)
  show ?thesis using assms resume_fst[of ex "io j" st "srcs ! j" st0]
    by (auto simp: Pair deliver_def case_prod_unfold nth_list_update)
qed

lemma foldl_deliver_length: "length (fst (foldl (deliver ex io srcs) p ord)) = length (fst p)"
  by (induction ord arbitrary: p) (simp_all add: deliver_length)

lemma foldl_deliver_requests:
  "requests (snd (foldl (deliver ex io srcs) p ord)) = requests (snd p)"
  by (induction ord arbitrary: p) (simp_all add: deliver_requests)

lemma foldl_deliver_nth:
  "i < length (fst p) \<Longrightarrow> length srcs = length (fst p) \<Longrightarrow>
   fst (foldl (deliver ex io srcs) p ord) ! i =
     (if i \<in> set ord \<and> fst p ! i = Waiting then Done (fst (resume ex (io i) st0 (srcs ! i)))
      else fst p ! i)"
proof (induction ord arbitrary: p)
  case Nil
  then show ?case by simp
next
  case (Cons j ord)
  let ?q = "deliver ex io srcs p j"
  have l: "length (fst ?q) = length (fst p)" by (rule deliver_length)
  have "fst (foldl (deliver ex io srcs) ?q ord) ! i =
     (if i \<in> set ord \<and> fst ?q ! i = Waiting then Done (fst (resume ex (io i) st0 (srcs ! i)))
      else fst ?q ! i)"
    using Cons.prems l by (intro Cons.IH) simp_all
  moreover have "fst ?q ! i =
     (if i = j \<and> fst p ! i = Waiting then Done (fst (resume ex (io i) st0 (srcs ! i)))
      else fst p ! i)"
    using Cons.prems by (rule deliver_nth)
  ultimately show ?case by auto
qed

lemma await_gather_fst:
  "fst (await_gather ex io ord st srcs) =
     (if all_ended io ord st srcs
      then Some (results_of ex io st srcs)
      else None)"
proof -
  let ?p = "dispatch io 0 st srcs"
  note results_of_def [simp]
  let ?ts = "fst (foldl (deliver ex io srcs) ?p ord)"
  have len0: "length (fst ?p) = length srcs" by (rule dispatch_length)
  have len: "length ?ts = length srcs" by (simp add: foldl_deliver_length len0)
  have nth: "?ts ! i =
      (case cache_hit (io i) st (srcs ! i) of
         Some r \<Rightarrow> Done (Inr (Some r))
       | None \<Rightarrow> if i \<in> set ord then Done (fst (resume ex (io i) st (srcs ! i))) else Waiting)"
    if "i < length srcs" for i
  proof -
    have "?ts ! i =
       (if i \<in> set ord \<and> fst ?p ! i = Waiting then Done (fst (resume ex (io i) st (srcs ! i)))
        else fst ?p ! i)"
      using that len0 by (intro foldl_deliver_nth) simp_all
    moreover have "fst ?p ! i = fst (start (io i) st (srcs ! i))"
      using dispatch_nth[OF that, of io 0 st] by simp
    ultimately show ?thesis by (simp add: start_fst split: option.splits)
  qed
  have g: "fst (await_gather ex io ord st srcs) = gather ?ts"
    by (simp add: await_gather_def case_prod_unfold)
  show ?thesis
  proof (cases "all_ended io ord st srcs")
    case True
    have "?ts = map Done (map (\<lambda>i. fst (fetch_one ex (io i) st (srcs ! i))) [0..<length srcs])"
    proof (rule nth_equalityI)
      show "length ?ts = length (map Done (map (\<lambda>i. fst (fetch_one ex (io i) st (srcs ! i))) [0..<length srcs]))"
        by (simp add: len)
    next
      fix i assume "i < length ?ts"
      then have i: "i < length srcs" by (simp add: len)
      then have "cache_hit (io i) st (srcs ! i) \<noteq> None \<or> i \<in> set ord"
        using True by (simp add: all_ended_def list_all_iff)
      then show "?ts ! i = map Done (map (\<lambda>i. fst (fetch_one ex (io i) st (srcs ! i))) [0..<length srcs]) ! i"
        using i by (auto simp: nth[OF i] fetch_one_fst split: option.splits)
    qed
    then have "gather ?ts = Some (map (\<lambda>i. fst (fetch_one ex (io i) st (srcs ! i))) [0..<length srcs])"
      by (simp only: gather_Some_iff)
    then show ?thesis using True g by simp
  next
    case False
    then obtain i where i: "i < length srcs" "cache_hit (io i) st (srcs ! i) = None" "i \<notin> set ord"
      by (auto simp: all_ended_def list_all_iff)
    then have "?ts ! i = Waiting" by (simp add: nth[OF i(1)])
    then have "Waiting \<in> set ?ts" using i(1) len by (metis nth_mem)
    then have "gather ?ts = None" by (simp only: gather_None_iff)
    then show ?thesis using False g by simp
  qed
qed

lemma await_gather_requests:
  "\<exists>new. requests (snd (await_gather ex io ord st srcs)) = requests st @ new
      \<and> subseq new (map url srcs)"
proof -
  have "requests (snd (await_gather ex io ord st srcs)) = requests (snd (dispatch io 0 st srcs))"
    by (simp add: await_gather_def case_prod_unfold foldl_deliver_requests)
  then show ?thesis using dispatch_requests[of io 0 st srcs] by simp
qed

section \<open>The engine as a whole\<close>

lemma accept_init:
  "accept zs [] [] =
     (take 2 (map (\<lambda>z. text_of (snd z)) (good zs)), take 2 (map (\<lambda>z. label (fst z)) (good zs)))"
  using accept_char[of "[]" zs "[]"] by (simp add: good_def)

lemma first_three_nonempty:
  "first_three intent \<noteq> [] \<longleftrightarrow> (case GOVERNMENT_SOURCES intent of None \<Rightarrow> [] | Some l \<Rightarrow> l) \<noteq> []"
  by (simp add: first_three_def)

lemma engine_fst:
  assumes "first_three intent = srcs" "srcs \<noteq> []"
  shows "fst (fetch_government_context ex io ord st intent) =
     (if all_ended io ord st srcs
      then Some (join SEPARATOR (take 2 (map (\<lambda>z. text_of (snd z)) (good (zip srcs (results_of ex io st srcs))))),
                 take 2 (map (\<lambda>z. label (fst z)) (good (zip srcs (results_of ex io st srcs)))))
      else None)"
proof -
  have ne: "(case GOVERNMENT_SOURCES intent of None \<Rightarrow> [] | Some l \<Rightarrow> l) \<noteq> []"
    using assms first_three_nonempty by blast
  have t: "take 3 (case GOVERNMENT_SOURCES intent of None \<Rightarrow> [] | Some l \<Rightarrow> l) = srcs"
    using assms by (simp add: first_three_def)
  obtain g st' where ag: "await_gather ex io ord st srcs = (g, st')"
    by (cases "await_gather ex io ord st srcs")
  have g: "g = (if all_ended io ord st srcs then Some (results_of ex io st srcs) else None)"
    using await_gather_fst[of ex io ord st srcs] ag by simp
  show ?thesis
    using ne by (simp add: fetch_government_context_def Let_def t ag g accept_init)
qed

lemma engine_unconfigured:
  assumes "first_three intent = []"
  shows "fetch_government_context ex io ord st intent = (Some ([], []), st)"
  using assms by (simp add: fetch_government_context_def first_three_def)

lemma engine_requests:
  "\<exists>new. requests (snd (fetch_government_context ex io ord st intent)) = requests st @ new
      \<and> subseq new (map url (first_three intent))"
proof (cases "first_three intent = []")
  case True
  then show ?thesis by (simp add: engine_unconfigured)
next
  case False
  then have ne: "(case GOVERNMENT_SOURCES intent of None \<Rightarrow> [] | Some l \<Rightarrow> l) \<noteq> []"
    by (simp add: first_three_nonempty)
  have "snd (fetch_government_context ex io ord st intent)
      = snd (await_gather ex io ord st (first_three intent))"
    using ne
    by (cases "await_gather ex io ord st (first_three intent)")
       (auto simp: fetch_government_context_def Let_def first_three_def
             split: option.splits prod.splits)
  then show ?thesis using await_gather_requests[of ex io ord st "first_three intent"] by simp
qed

lemma u_RTI: "GOVERNMENT_SOURCES (u ''RTI'') = Some rti_sources"
  by (simp add: GOVERNMENT_SOURCES_def u_def)

lemma u_DV: "GOVERNMENT_SOURCES (u ''Domestic Violence'') = Some dv_sources"
  by (simp add: GOVERNMENT_SOURCES_def u_def)

lemma u_Div: "GOVERNMENT_SOURCES (u ''Divorce'') = Some divorce_sources"
  by (simp add: GOVERNMENT_SOURCES_def u_def)

lemma GOVERNMENT_SOURCES_cases:
  "GOVERNMENT_SOURCES intent = None \<and> intent \<notin> {u ''RTI'', u ''Domestic Violence'', u ''Divorce''}
   \<or> intent = u ''RTI'' \<and> GOVERNMENT_SOURCES intent = Some rti_sources
   \<or> intent = u ''Domestic Violence'' \<and> GOVERNMENT_SOURCES intent = Some dv_sources
   \<or> intent = u ''Divorce'' \<and> GOVERNMENT_SOURCES intent = Some divorce_sources"
  using u_RTI u_DV u_Div by (auto simp: GOVERNMENT_SOURCES_def)

lemma distinct_labels_rti: "distinct (map label (take 3 rti_sources))"
  by (simp add: rti_sources_def u_def emdash_def)

lemma distinct_labels_dv: "distinct (map label (take 3 dv_sources))"
  by (simp add: dv_sources_def u_def emdash_def)

lemma distinct_labels_div: "distinct (map label (take 3 divorce_sources))"
  by (simp add: divorce_sources_def u_def emdash_def)

lemma distinct_labels: "distinct (map label (first_three intent))"
  using GOVERNMENT_SOURCES_cases[of intent] distinct_labels_rti distinct_labels_dv distinct_labels_div
  by (auto simp: first_three_def)

lemma fourth_rti: "url (rti_sources ! 3) \<notin> set (map url (take 3 rti_sources))"
  by (simp add: rti_sources_def u_def)

section \<open>Auxiliary facts about lists\<close>

lemmas eval_defs = fetch_government_context_def await_gather_def deliver_def start_def
  cache_hit_def resume_def try_body_def fetch_one_def u_def emdash_def annotated_def
  SEPARATOR_def GOVERNMENT_SOURCES_def rti_sources_def dv_sources_def divorce_sources_def
  empty_state_def ex_id_def page_def io_ok_def io_status_def MIN_CONTENT_LEN_def
  MAX_CHARS_PER_SOURCE_def CACHE_TTL_def Let_def

lemma subseq_take_self: "subseq (take n xs) xs"
proof -
  have "subseq (take n xs) (take n xs @ drop n xs)" by (rule subseq_rev_drop_many) simp
  then show ?thesis by simp
qed

lemma subseq_distinct: "subseq xs ys \<Longrightarrow> distinct ys \<Longrightarrow> distinct xs"
  by (auto simp: subseq_conv_nths)

lemma join_Nil_iff: "[] \<notin> set xs \<Longrightarrow> join sep xs = [] \<longleftrightarrow> xs = []"
  by (cases "(sep, xs)" rule: join.cases) auto

lemma good_text_nonempty: "z \<in> set (good zs) \<Longrightarrow> text_of (snd z) \<noteq> []"
  by (auto simp: good_def usable_def text_of_def split: sum.splits option.splits)

lemma results_of_length: "length (results_of ex io st srcs) = length srcs"
  by (simp add: results_of_def)

lemma good_labels_subseq:
  assumes "length rs = length srcs"
  shows "subseq (map (\<lambda>z. label (fst z)) (good (zip srcs rs))) (map label srcs)"
proof -
  have "subseq (good (zip srcs rs)) (zip srcs rs)" by (simp add: good_def)
  then have "subseq (map (\<lambda>z. label (fst z)) (good (zip srcs rs)))
      (map (\<lambda>z. label (fst z)) (zip srcs rs))"
    by (rule subseq_map)
  moreover have "map (\<lambda>z. label (fst z)) (zip srcs rs) = map label (map fst (zip srcs rs))"
    by simp
  moreover have "map fst (zip srcs rs) = srcs" using assms by simp
  ultimately show ?thesis by simp
qed

lemma subseq_set: "subseq xs ys \<Longrightarrow> set xs \<subseteq> set ys"
  by (induction rule: list_emb.induct) auto

lemma engine_Some:
  assumes "first_three intent \<noteq> []"
    and "fst (fetch_government_context ex io ord st intent) = Some (combined_text, used)"
  shows "combined_text = join SEPARATOR (take 2 (map (\<lambda>z. text_of (snd z))
            (good (zip (first_three intent) (results_of ex io st (first_three intent))))))"
    and "used = take 2 (map (\<lambda>z. label (fst z))
            (good (zip (first_three intent) (results_of ex io st (first_three intent)))))"
    and "all_ended io ord st (first_three intent)"
proof -
  note e = engine_fst[OF refl assms(1), of ex io ord st]
  show a: "all_ended io ord st (first_three intent)"
  proof (rule ccontr)
    assume "\<not> all_ended io ord st (first_three intent)"
    then have "fst (fetch_government_context ex io ord st intent) = None"
      by (simp only: e if_False)
    then show False using assms(2) by simp
  qed
  have "fst (fetch_government_context ex io ord st intent) =
     Some (join SEPARATOR (take 2 (map (\<lambda>z. text_of (snd z))
            (good (zip (first_three intent) (results_of ex io st (first_three intent)))))),
           take 2 (map (\<lambda>z. label (fst z))
            (good (zip (first_three intent) (results_of ex io st (first_three intent))))))"
    using a by (simp only: e if_True)
  then have p: "(combined_text, used) =
     (join SEPARATOR (take 2 (map (\<lambda>z. text_of (snd z))
            (good (zip (first_three intent) (results_of ex io st (first_three intent)))))),
           take 2 (map (\<lambda>z. label (fst z))
            (good (zip (first_three intent) (results_of ex io st (first_three intent))))))"
    using assms(2) by (simp only: option.inject)
  show "combined_text = join SEPARATOR (take 2 (map (\<lambda>z. text_of (snd z))
            (good (zip (first_three intent) (results_of ex io st (first_three intent))))))"
    using p by (simp only: prod.inject)
  show "used = take 2 (map (\<lambda>z. label (fst z))
            (good (zip (first_three intent) (results_of ex io st (first_three intent)))))"
    using p by (simp only: prod.inject)
qed

lemma good_texts_nonempty: "[] \<notin> set (take n (map (\<lambda>z. text_of (snd z)) (good zs)))"
proof
  assume "[] \<in> set (take n (map (\<lambda>z. text_of (snd z)) (good zs)))"
  then have "[] \<in> set (map (\<lambda>z. text_of (snd z)) (good zs))" by (rule in_set_takeD)
  then obtain z where "z \<in> set (good zs)" "text_of (snd z) = []" by auto
  then show False using good_text_nonempty by blast
qed

lemma take_map_Nil_iff: "take 2 (map f xs) = [] \<longleftrightarrow> xs = []"
  by (cases xs) simp_all

lemma beyond_third:
  assumes "s \<in> set (drop 3 (case GOVERNMENT_SOURCES intent of None \<Rightarrow> [] | Some l \<Rightarrow> l))"
  shows "url s \<notin> set (map url (first_three intent))"
proof -
  consider "GOVERNMENT_SOURCES intent = None"
    | "GOVERNMENT_SOURCES intent = Some rti_sources"
    | "GOVERNMENT_SOURCES intent = Some dv_sources"
    | "GOVERNMENT_SOURCES intent = Some divorce_sources"
    using GOVERNMENT_SOURCES_cases[of intent] by auto
  then show ?thesis
  proof cases
    case 1
    then show ?thesis using assms by simp
  next
    case 2
    have "s = rti_sources ! 3" using assms unfolding 2 by (simp add: rti_sources_def)
    then show ?thesis using fourth_rti by (simp add: first_three_def 2)
  next
    case 3
    then show ?thesis using assms by (simp add: dv_sources_def)
  next
    case 4
    then show ?thesis using assms by (simp add: divorce_sources_def)
  qed
qed

lemma engine_all_ended:
  assumes "first_three intent = srcs" "srcs \<noteq> []" "all_ended io ord st srcs"
  shows "fst (fetch_government_context ex io ord st intent) =
     Some (join SEPARATOR (take 2 (map (\<lambda>z. text_of (snd z)) (good (zip srcs (results_of ex io st srcs))))),
           take 2 (map (\<lambda>z. label (fst z)) (good (zip srcs (results_of ex io st srcs)))))"
  using assms(3) by (simp only: engine_fst[OF assms(1,2)] if_True)

lemma engine_not_ended:
  assumes "first_three intent = srcs" "srcs \<noteq> []" "\<not> all_ended io ord st srcs"
  shows "fst (fetch_government_context ex io ord st intent) = None"
  using assms(3) by (simp only: engine_fst[OF assms(1,2)] if_False)

lemma usable_Some: "usable (Inr (Some r)) \<longleftrightarrow> r \<noteq> []"
  by (simp add: usable_def)

lemma text_of_Some: "text_of (Inr (Some r)) = r"
  by (simp add: text_of_def)

lemma good_first_third:
  assumes "r1 \<noteq> []" "\<not> usable f2" "r3 \<noteq> []"
  shows "good (zip [a, b, c] [Inr (Some r1), f2, Inr (Some r3)])
     = [(a, Inr (Some r1)), (c, Inr (Some r3))]"
  using assms by (simp add: good_def usable_Some)

lemma good_first_second:
  assumes "r1 \<noteq> []" "r2 \<noteq> []"
  shows "take 2 (good (zip [a, b, c] [Inr (Some r1), Inr (Some r2), f3]))
     = [(a, Inr (Some r1)), (b, Inr (Some r2))]"
  using assms by (simp add: good_def usable_Some)

lemma rti_three: "take 3 rti_sources = [rti_sources ! 0, rti_sources ! 1, rti_sources ! 2]"
  by (simp add: rti_sources_def)

lemma first_three_RTI: "first_three (u ''RTI'') = take 3 rti_sources"
  by (simp add: first_three_def u_RTI)

lemma rti_three_nonempty: "take 3 rti_sources \<noteq> []"
  by (simp add: rti_sources_def)

section \<open>Claims about the fusion engine\<close>

text \<open>
  Claim C7. For an intent that has no entry in \<open>GOVERNMENT_SOURCES\<close>, the engine
  returns the pair of the empty string and the empty list. It returns whatever GETs
  have ended (it waits for none), it raises nothing, and the state is the one it started
  from: no GET was issued and the cache is untouched.
\<close>

theorem unconfigured_intent_empty:
  "intent \<notin> {u ''RTI'', u ''Domestic Violence'', u ''Divorce''} \<Longrightarrow>
   fetch_government_context ex io ord st intent = (Some ([], []), st)"
  using GOVERNMENT_SOURCES_cases[of intent]
  by (auto simp: fetch_government_context_def)

theorem unconfigured_intent_empty_witness:
  "u ''NoSuchTopic'' \<notin> {u ''RTI'', u ''Domestic Violence'', u ''Divorce''}
   \<and> fetch_government_context ex_id (\<lambda>i. io_ok 150) [] empty_state (u ''NoSuchTopic'')
       = (Some ([], []), empty_state)"
proof -
  have h: "u ''NoSuchTopic'' \<notin> {u ''RTI'', u ''Domestic Violence'', u ''Divorce''}"
    by (simp add: u_def)
  show ?thesis using h unconfigured_intent_empty[OF h] by simp
qed

text \<open>
  Claim C10. Whenever the engine returns a pair \<open>(combined_text, sources_used)\<close>, for
  any intent, cache, clock and network behaviour: \<open>sources_used\<close> has at most two
  labels; each is the label of one of the first three configured sources of the intent;
  the labels stand in configured order (they form a subsequence of the configured
  labels) and none occurs twice; and \<open>combined_text\<close> is empty exactly when
  \<open>sources_used\<close> is empty.
\<close>

theorem engine_result_invariant:
  assumes "fst (fetch_government_context ex io ord st intent) = Some (combined_text, used)"
  shows "length used \<le> 2
     \<and> set used \<subseteq> label ` set (first_three intent)
     \<and> subseq used (map label (first_three intent))
     \<and> distinct used
     \<and> (combined_text = [] \<longleftrightarrow> used = [])"
proof (cases "first_three intent = []")
  case True
  have "fetch_government_context ex io ord st intent = (Some ([], []), st)"
    using True by (rule engine_unconfigured)
  then have "combined_text = []" "used = []" using assms by simp_all
  then show ?thesis by simp
next
  case False
  define g where "g = good (zip (first_three intent) (results_of ex io st (first_three intent)))"
  have c: "combined_text = join SEPARATOR (take 2 (map (\<lambda>z. text_of (snd z)) g))"
    unfolding g_def using False assms by (rule engine_Some(1))
  have us: "used = take 2 (map (\<lambda>z. label (fst z)) g)"
    unfolding g_def using False assms by (rule engine_Some(2))
  have "subseq used (map (\<lambda>z. label (fst z)) g)" unfolding us by (rule subseq_take_self)
  moreover have "subseq (map (\<lambda>z. label (fst z)) g) (map label (first_three intent))"
    unfolding g_def by (rule good_labels_subseq) (rule results_of_length)
  ultimately have sub: "subseq used (map label (first_three intent))"
    by (rule subseq_order.trans)
  have 1: "length used \<le> 2" unfolding us by simp
  have "set used \<subseteq> set (map label (first_three intent))" using sub by (rule subseq_set)
  then have 2: "set used \<subseteq> label ` set (first_three intent)" by simp
  have 3: "distinct used" using sub distinct_labels by (rule subseq_distinct)
  have "combined_text = [] \<longleftrightarrow> take 2 (map (\<lambda>z. text_of (snd z)) g) = []"
    unfolding c g_def using good_texts_nonempty by (rule join_Nil_iff)
  also have "\<dots> \<longleftrightarrow> g = []" by (rule take_map_Nil_iff)
  also have "\<dots> \<longleftrightarrow> used = []" unfolding us by (rule take_map_Nil_iff[symmetric])
  finally have 4: "combined_text = [] \<longleftrightarrow> used = []" .
  from 1 2 sub 3 4 show ?thesis by blast
qed

theorem engine_result_invariant_witness:
  "fst (fetch_government_context ex_id (\<lambda>i. if i = 1 then io_status 500 else io_ok 150) [2, 1, 0]
          empty_state (u ''RTI''))
     = Some (annotated (label (rti_sources ! 0)) (page 150) @ SEPARATOR
               @ annotated (label (rti_sources ! 2)) (page 150),
             [label (rti_sources ! 0), label (rti_sources ! 2)])
   \<and> (length [label (rti_sources ! 0), label (rti_sources ! 2)] \<le> 2
     \<and> set [label (rti_sources ! 0), label (rti_sources ! 2)] \<subseteq> label ` set (first_three (u ''RTI''))
     \<and> subseq [label (rti_sources ! 0), label (rti_sources ! 2)] (map label (first_three (u ''RTI'')))
     \<and> distinct [label (rti_sources ! 0), label (rti_sources ! 2)]
     \<and> (annotated (label (rti_sources ! 0)) (page 150) @ SEPARATOR
               @ annotated (label (rti_sources ! 2)) (page 150) = []
          \<longleftrightarrow> [label (rti_sources ! 0), label (rti_sources ! 2)] = []))"
proof -
  have h: "fst (fetch_government_context ex_id (\<lambda>i. if i = 1 then io_status 500 else io_ok 150) [2, 1, 0]
          empty_state (u ''RTI''))
     = Some (annotated (label (rti_sources ! 0)) (page 150) @ SEPARATOR
               @ annotated (label (rti_sources ! 2)) (page 150),
             [label (rti_sources ! 0), label (rti_sources ! 2)])"
    by (simp add: eval_defs)
  from h engine_result_invariant[OF h] show ?thesis by (rule conjI)
qed

text \<open>
  Claim C8. The GETs that one call of the engine issues are GETs of the first three
  configured sources, in configured order and at most three; the URL of a source that
  stands after the third in a longer list (the fourth RTI source) is not requested.
\<close>

theorem only_first_three_fetched:
  "\<exists>new. requests (snd (fetch_government_context ex io ord st intent)) = requests st @ new
     \<and> subseq new (map url (first_three intent))
     \<and> length new \<le> 3
     \<and> (\<forall>s \<in> set (drop 3 (case GOVERNMENT_SOURCES intent of None \<Rightarrow> [] | Some l \<Rightarrow> l)).
           url s \<notin> set new)"
proof -
  obtain new where n: "requests (snd (fetch_government_context ex io ord st intent)) = requests st @ new"
    "subseq new (map url (first_three intent))"
    using engine_requests by blast
  have "length new \<le> length (map url (first_three intent))" using n(2) by (rule list_emb_length)
  then have l: "length new \<le> 3" by (simp add: first_three_def)
  have s: "set new \<subseteq> set (map url (first_three intent))" using n(2) by (rule subseq_set)
  have "\<forall>s \<in> set (drop 3 (case GOVERNMENT_SOURCES intent of None \<Rightarrow> [] | Some l \<Rightarrow> l)).
           url s \<notin> set new"
    using beyond_third s by blast
  then show ?thesis using n l by blast
qed

theorem only_first_three_fetched_witness:
  "requests (snd (fetch_government_context ex_id (\<lambda>i. io_ok 150) [] empty_state (u ''RTI'')))
     = map url (take 3 rti_sources)
   \<and> url (rti_sources ! 3)
        \<notin> set (requests (snd (fetch_government_context ex_id (\<lambda>i. io_ok 150) [] empty_state (u ''RTI''))))"
proof -
  obtain new where n:
    "requests (snd (fetch_government_context ex_id (\<lambda>i. io_ok 150) [] empty_state (u ''RTI'')))
       = requests empty_state @ new"
    "\<forall>s \<in> set (drop 3 (case GOVERNMENT_SOURCES (u ''RTI'') of None \<Rightarrow> [] | Some l \<Rightarrow> l)).
        url s \<notin> set new"
    using only_first_three_fetched[of ex_id "\<lambda>i. io_ok 150" "[]" empty_state "u ''RTI''"] by blast
  have m: "rti_sources ! 3 \<in> set (drop 3 (case GOVERNMENT_SOURCES (u ''RTI'') of None \<Rightarrow> [] | Some l \<Rightarrow> l))"
    by (simp add: u_RTI) (simp add: rti_sources_def)
  have "url (rti_sources ! 3) \<notin> set new" using n(2) m by (rule bspec)
  then have 1: "url (rti_sources ! 3)
        \<notin> set (requests (snd (fetch_government_context ex_id (\<lambda>i. io_ok 150) [] empty_state (u ''RTI''))))"
    unfolding n(1) by (simp add: empty_state_def)
  have 2: "requests (snd (fetch_government_context ex_id (\<lambda>i. io_ok 150) [] empty_state (u ''RTI'')))
     = map url (take 3 rti_sources)"
    by (simp add: eval_defs)
  from 2 1 show ?thesis by (rule conjI)
qed

text \<open>
  Claim C3. Once every task has its value, the engine returns the first two usable
  results taken in configured source order, joined by the separator, together with
  their labels in that order. The pair depends on the results only, not on the order in
  which the GETs ended: any two completion orders give the same pair. In particular,
  when the first and the third source succeed and the second yields nothing usable, the
  text is the first source's text, the separator, the third source's text, and the labels
  are those of the first and the third source.
\<close>

theorem configured_order_assembly:
  assumes "first_three intent = srcs" "srcs \<noteq> []" "all_ended io ord st srcs"
  shows "fst (fetch_government_context ex io ord st intent) =
       Some (join SEPARATOR (take 2 (map (\<lambda>z. text_of (snd z))
                (good (zip srcs (results_of ex io st srcs))))),
             take 2 (map (\<lambda>z. label (fst z)) (good (zip srcs (results_of ex io st srcs)))))
     \<and> (\<forall>ord'. all_ended io ord' st srcs \<longrightarrow>
           fst (fetch_government_context ex io ord' st intent)
             = fst (fetch_government_context ex io ord st intent))
     \<and> (\<forall>a b c r1 f2 r3.
           srcs = [a, b, c] \<and> results_of ex io st srcs = [Inr (Some r1), f2, Inr (Some r3)]
             \<and> r1 \<noteq> [] \<and> \<not> usable f2 \<and> r3 \<noteq> [] \<longrightarrow>
           fst (fetch_government_context ex io ord st intent)
             = Some (r1 @ SEPARATOR @ r3, [label a, label c]))"
proof (intro conjI allI impI)
  show g: "fst (fetch_government_context ex io ord st intent) =
       Some (join SEPARATOR (take 2 (map (\<lambda>z. text_of (snd z))
                (good (zip srcs (results_of ex io st srcs))))),
             take 2 (map (\<lambda>z. label (fst z)) (good (zip srcs (results_of ex io st srcs)))))"
    using assms by (rule engine_all_ended)
  show "fst (fetch_government_context ex io ord' st intent)
             = fst (fetch_government_context ex io ord st intent)"
    if "all_ended io ord' st srcs" for ord'
    unfolding g using assms(1,2) that by (rule engine_all_ended)
  show "fst (fetch_government_context ex io ord st intent)
             = Some (r1 @ SEPARATOR @ r3, [label a, label c])"
    if h: "srcs = [a, b, c] \<and> results_of ex io st srcs = [Inr (Some r1), f2, Inr (Some r3)]
             \<and> r1 \<noteq> [] \<and> \<not> usable f2 \<and> r3 \<noteq> []" for a b c r1 f2 r3
  proof -
    from h have s: "srcs = [a, b, c]"
      and r: "results_of ex io st srcs = [Inr (Some r1), f2, Inr (Some r3)]"
      and n: "r1 \<noteq> []" "\<not> usable f2" "r3 \<noteq> []"
      by blast+
    have "good (zip srcs (results_of ex io st srcs)) = [(a, Inr (Some r1)), (c, Inr (Some r3))]"
      unfolding r unfolding s using n by (rule good_first_third)
    then show ?thesis unfolding g by (simp add: text_of_Some)
  qed
qed

theorem configured_order_assembly_witness:
  "all_ended (\<lambda>i. if i = 1 then io_status 500 else io_ok 150) [2, 1, 0] empty_state
       (take 3 rti_sources)
   \<and> fst (fetch_government_context ex_id (\<lambda>i. if i = 1 then io_status 500 else io_ok 150)
            [2, 1, 0] empty_state (u ''RTI''))
       = Some (annotated (label (rti_sources ! 0)) (page 150) @ SEPARATOR
                 @ annotated (label (rti_sources ! 2)) (page 150),
               [label (rti_sources ! 0), label (rti_sources ! 2)])
   \<and> fst (fetch_government_context ex_id (\<lambda>i. if i = 1 then io_status 500 else io_ok 150)
            [0, 1, 2] empty_state (u ''RTI''))
       = fst (fetch_government_context ex_id (\<lambda>i. if i = 1 then io_status 500 else io_ok 150)
            [2, 1, 0] empty_state (u ''RTI''))"
proof -
  let ?io = "\<lambda>i::nat. if i = 1 then io_status 500 else io_ok 150"
  have h3: "all_ended ?io [2, 1, 0] empty_state (take 3 rti_sources)"
    by (simp add: all_ended_def rti_sources_def)
  have h3': "all_ended ?io [0, 1, 2] empty_state (take 3 rti_sources)"
    by (simp add: all_ended_def rti_sources_def)
  have r: "results_of ex_id ?io empty_state (take 3 rti_sources)
      = [Inr (Some (annotated (label (rti_sources ! 0)) (page 150))), Inr None,
         Inr (Some (annotated (label (rti_sources ! 2)) (page 150)))]"
    by (simp add: results_of_def eval_defs)
  have n: "annotated (label (rti_sources ! 0)) (page 150) \<noteq> []"
    "\<not> usable (Inr None)" "annotated (label (rti_sources ! 2)) (page 150) \<noteq> []"
    by (simp_all add: annotated_def u_def usable_def)
  note t = configured_order_assembly[OF first_three_RTI rti_three_nonempty h3, of ex_id]
  from t have a: "\<forall>ord'. all_ended ?io ord' empty_state (take 3 rti_sources) \<longrightarrow>
           fst (fetch_government_context ex_id ?io ord' empty_state (u ''RTI''))
             = fst (fetch_government_context ex_id ?io [2, 1, 0] empty_state (u ''RTI''))"
    by (elim conjE)
  from t have b: "\<forall>a b c r1 f2 r3.
           take 3 rti_sources = [a, b, c]
             \<and> results_of ex_id ?io empty_state (take 3 rti_sources) = [Inr (Some r1), f2, Inr (Some r3)]
             \<and> r1 \<noteq> [] \<and> \<not> usable f2 \<and> r3 \<noteq> [] \<longrightarrow>
           fst (fetch_government_context ex_id ?io [2, 1, 0] empty_state (u ''RTI''))
             = Some (r1 @ SEPARATOR @ r3, [label a, label c])"
    by (elim conjE)
  have 1: "fst (fetch_government_context ex_id ?io [0, 1, 2] empty_state (u ''RTI''))
       = fst (fetch_government_context ex_id ?io [2, 1, 0] empty_state (u ''RTI''))"
    using a h3' by blast
  have 2: "fst (fetch_government_context ex_id ?io [2, 1, 0] empty_state (u ''RTI''))
       = Some (annotated (label (rti_sources ! 0)) (page 150) @ SEPARATOR
                 @ annotated (label (rti_sources ! 2)) (page 150),
               [label (rti_sources ! 0), label (rti_sources ! 2)])"
    using b rti_three r n by blast
  from h3 2 1 show ?thesis by (intro conjI)
qed

text \<open>
  Claim C2, as stated, fails: with three configured sources whose first two GETs have
  ended with success while the third is pending, the engine has not returned, because
  \<open>asyncio.gather\<close> resumes the caller only when all three tasks are finished.
\<close>

theorem early_return_counterexample:
  "fst (fetch_one ex_id (io_ok 150) empty_state (rti_sources ! 0))
     = Inr (Some (annotated (label (rti_sources ! 0)) (page 150)))
   \<and> fst (fetch_one ex_id (io_ok 150) empty_state (rti_sources ! 1))
     = Inr (Some (annotated (label (rti_sources ! 1)) (page 150)))
   \<and> fst (fetch_government_context ex_id (\<lambda>i. io_ok 150) [0, 1] empty_state (u ''RTI'')) = None"
  by (simp add: eval_defs)

text \<open>
  Claim C2, amended. The engine returns exactly when every task it dispatched has its
  value, so a pending third fetch is waited for. Once all have resolved and the first two
  sources succeeded, the returned pair is the first text, the separator and the second
  text with the two labels, whatever the third fetch yielded.
\<close>

theorem gather_awaits_every_task:
  assumes "first_three intent = srcs" "srcs \<noteq> []"
  shows "(fst (fetch_government_context ex io ord st intent) \<noteq> None \<longleftrightarrow> all_ended io ord st srcs)
     \<and> (\<forall>a b c r1 r2 f3.
           all_ended io ord st srcs \<and> srcs = [a, b, c]
             \<and> results_of ex io st srcs = [Inr (Some r1), Inr (Some r2), f3]
             \<and> r1 \<noteq> [] \<and> r2 \<noteq> [] \<longrightarrow>
           fst (fetch_government_context ex io ord st intent)
             = Some (r1 @ SEPARATOR @ r2, [label a, label b]))"
proof (intro conjI allI impI)
  show "fst (fetch_government_context ex io ord st intent) \<noteq> None \<longleftrightarrow> all_ended io ord st srcs"
    using engine_all_ended[OF assms, of io ord st ex] engine_not_ended[OF assms, of io ord st ex]
    by (cases "all_ended io ord st srcs") simp_all
  show "fst (fetch_government_context ex io ord st intent)
             = Some (r1 @ SEPARATOR @ r2, [label a, label b])"
    if h: "all_ended io ord st srcs \<and> srcs = [a, b, c]
             \<and> results_of ex io st srcs = [Inr (Some r1), Inr (Some r2), f3]
             \<and> r1 \<noteq> [] \<and> r2 \<noteq> []" for a b c r1 r2 f3
  proof -
    from h have s: "srcs = [a, b, c]"
      and r: "results_of ex io st srcs = [Inr (Some r1), Inr (Some r2), f3]"
      and n: "r1 \<noteq> []" "r2 \<noteq> []"
      and ae: "all_ended io ord st srcs"
      by blast+
    have t: "take 2 (good (zip srcs (results_of ex io st srcs)))
        = [(a, Inr (Some r1)), (b, Inr (Some r2))]"
      unfolding r unfolding s using n by (rule good_first_second)
    have "fst (fetch_government_context ex io ord st intent) =
       Some (join SEPARATOR (map (\<lambda>z. text_of (snd z)) (take 2 (good (zip srcs (results_of ex io st srcs))))),
             map (\<lambda>z. label (fst z)) (take 2 (good (zip srcs (results_of ex io st srcs)))))"
      using engine_all_ended[OF assms ae, of ex] by (simp only: take_map)
    then show ?thesis unfolding t by (simp add: text_of_Some)
  qed
qed

theorem gather_awaits_every_task_witness:
  "all_ended (\<lambda>i. io_ok 150) [0, 1, 2] empty_state (take 3 rti_sources)
   \<and> fst (fetch_government_context ex_id (\<lambda>i. io_ok 150) [0, 1, 2] empty_state (u ''RTI''))
       = Some (annotated (label (rti_sources ! 0)) (page 150) @ SEPARATOR
                 @ annotated (label (rti_sources ! 1)) (page 150),
               [label (rti_sources ! 0), label (rti_sources ! 1)])
   \<and> \<not> all_ended (\<lambda>i. io_ok 150) [0, 1] empty_state (take 3 rti_sources)
   \<and> fst (fetch_government_context ex_id (\<lambda>i. io_ok 150) [0, 1] empty_state (u ''RTI'')) = None"
proof -
  let ?io = "\<lambda>i::nat. io_ok 150"
  have h: "all_ended ?io [0, 1, 2] empty_state (take 3 rti_sources)"
    by (simp add: all_ended_def rti_sources_def)
  have h': "\<not> all_ended ?io [0, 1] empty_state (take 3 rti_sources)"
    by (simp add: all_ended_def eval_defs)
  have r: "results_of ex_id ?io empty_state (take 3 rti_sources)
      = [Inr (Some (annotated (label (rti_sources ! 0)) (page 150))),
         Inr (Some (annotated (label (rti_sources ! 1)) (page 150))),
         Inr (Some (annotated (label (rti_sources ! 2)) (page 150)))]"
    by (simp add: results_of_def eval_defs)
  have n: "annotated (label (rti_sources ! 0)) (page 150) \<noteq> []"
    "annotated (label (rti_sources ! 1)) (page 150) \<noteq> []"
    by (simp_all add: annotated_def u_def)
  note t = gather_awaits_every_task[OF first_three_RTI rti_three_nonempty, of ex_id ?io "[0, 1, 2]" empty_state]
  note t' = gather_awaits_every_task[OF first_three_RTI rti_three_nonempty, of ex_id ?io "[0, 1]" empty_state]
  from t have b: "\<forall>a b c r1 r2 f3.
           all_ended ?io [0, 1, 2] empty_state (take 3 rti_sources) \<and> take 3 rti_sources = [a, b, c]
             \<and> results_of ex_id ?io empty_state (take 3 rti_sources) = [Inr (Some r1), Inr (Some r2), f3]
             \<and> r1 \<noteq> [] \<and> r2 \<noteq> [] \<longrightarrow>
           fst (fetch_government_context ex_id ?io [0, 1, 2] empty_state (u ''RTI''))
             = Some (r1 @ SEPARATOR @ r2, [label a, label b])"
    by (elim conjE)
  have 1: "fst (fetch_government_context ex_id ?io [0, 1, 2] empty_state (u ''RTI''))
       = Some (annotated (label (rti_sources ! 0)) (page 150) @ SEPARATOR
                 @ annotated (label (rti_sources ! 1)) (page 150),
               [label (rti_sources ! 0), label (rti_sources ! 1)])"
    using b h rti_three r n by blast
  from t' have "fst (fetch_government_context ex_id ?io [0, 1] empty_state (u ''RTI'')) \<noteq> None
      \<longleftrightarrow> all_ended ?io [0, 1] empty_state (take 3 rti_sources)"
    by (elim conjE)
  then have 2: "fst (fetch_government_context ex_id ?io [0, 1] empty_state (u ''RTI'')) = None"
    using h' by blast
  from h 1 h' 2 show ?thesis by (intro conjI)
qed

section \<open>Claims about the page fetcher\<close>

lemma cache_hit_fresh:
  assumes "cache st (url src) = Some (text, ts)" "check_time io - ts < CACHE_TTL"
  shows "cache_hit io st src = Some (annotated (label src) text)"
  using assms by (simp add: cache_hit_def)

lemma cache_hit_expired:
  assumes "cache st (url src) = Some (text, ts)" "check_time io - ts \<ge> CACHE_TTL"
  shows "cache_hit io st src = None"
  using assms by (simp add: cache_hit_def)

lemma fetch_one_hit:
  assumes "cache_hit io st src = Some r"
  shows "fetch_one ex io st src = (Inr (Some r), st)"
  using assms by (simp add: fetch_one_def)

lemma fetch_one_miss:
  assumes "cache_hit io st src = None"
  shows "fetch_one ex io st src = resume ex io (st\<lparr>requests := requests st @ [url src]\<rparr>) src"
  using assms by (simp add: fetch_one_def)

lemma resume_success:
  assumes "reply io = Response 200 body" "ex body = Inr text" "length text \<ge> MIN_CONTENT_LEN"
  shows "resume ex io st src =
     (Inr (Some (annotated (label src) (take MAX_CHARS_PER_SOURCE text))),
      st\<lparr>cache := (cache st)(url src \<mapsto> (take MAX_CHARS_PER_SOURCE text, store_time io))\<rparr>)"
  using assms by (simp add: resume_def try_body_def Let_def)

lemma resume_too_short:
  assumes "reply io = Response 200 body" "ex body = Inr text" "length text < MIN_CONTENT_LEN"
  shows "resume ex io st src = (Inr None, st)"
  using assms by (simp add: resume_def try_body_def)

lemma resume_status:
  assumes "reply io = Response code body" "code \<noteq> 200"
  shows "resume ex io st src = (Inr None, st)"
  using assms by (simp add: resume_def try_body_def)

lemma resume_raises:
  assumes "reply io = Raises e" "is_Exception e"
  shows "resume ex io st src = (Inr None, st)"
  using assms by (simp add: resume_def try_body_def)

lemma resume_extract_raises:
  assumes "reply io = Response 200 body" "ex body = Inl e" "is_Exception e"
  shows "resume ex io st src = (Inr None, st)"
  using assms by (simp add: resume_def try_body_def)

text \<open>
  Claim C6. A fetch that goes to the network, receives status 200 and extracts a text
  shorter than \<open>MIN_CONTENT_LEN\<close> (100 characters) returns \<open>None\<close>; the cache after
  the fetch is the cache before it, so the outcome is not stored. Only the GET is
  recorded in the log.
\<close>

theorem too_short_not_cached:
  assumes "cache_hit io st src = None"
    and "reply io = Response 200 body" and "ex body = Inr text"
    and "length text < MIN_CONTENT_LEN"
  shows "fetch_one ex io st src = (Inr None, st\<lparr>requests := requests st @ [url src]\<rparr>)
     \<and> cache (snd (fetch_one ex io st src)) = cache st"
proof -
  have "fetch_one ex io st src = (Inr None, st\<lparr>requests := requests st @ [url src]\<rparr>)"
    unfolding fetch_one_miss[OF assms(1)] using assms(2-4) by (rule resume_too_short)
  then show ?thesis by simp
qed

theorem too_short_not_cached_witness:
  "MIN_CONTENT_LEN = 100
   \<and> fetch_one ex_id (io_ok 80) empty_state (rti_sources ! 0)
       = (Inr None, empty_state\<lparr>requests := requests empty_state @ [url (rti_sources ! 0)]\<rparr>)
   \<and> cache (snd (fetch_one ex_id (io_ok 80) empty_state (rti_sources ! 0))) = cache empty_state"
proof -
  have 1: "cache_hit (io_ok 80) empty_state (rti_sources ! 0) = None"
    by (simp add: cache_hit_def empty_state_def)
  have 2: "reply (io_ok 80) = Response 200 (page 80)" by (simp add: io_ok_def)
  have 3: "ex_id (page 80) = Inr (page 80)" by (simp add: ex_id_def)
  have 4: "length (page 80) < MIN_CONTENT_LEN" by (simp add: page_def MIN_CONTENT_LEN_def)
  from MIN_CONTENT_LEN_def too_short_not_cached[where ex = ex_id, OF 1 2 3 4] show ?thesis by (rule conjI)
qed

lemma good_drop_unusable:
  "\<not> usable r \<Longrightarrow> good (zs1 @ (src, r) # zs2) = good (zs1 @ zs2)"
  by (simp add: good_def)

lemma accept_drop_unusable:
  assumes "\<not> usable r"
  shows "accept (zs1 @ (src, r) # zs2) [] [] = accept (zs1 @ zs2) [] []"
  unfolding accept_init good_drop_unusable[OF assms] by (rule refl)

lemma fetch_one_failure:
  assumes "cache_hit io st src = None"
    and "(\<exists>code body. reply io = Response code body \<and> code \<noteq> 200)
       \<or> (\<exists>e. reply io = Raises e \<and> is_Exception e)"
  shows "fetch_one ex io st src = (Inr None, st\<lparr>requests := requests st @ [url src]\<rparr>)"
proof -
  from assms(2) have "resume ex io (st\<lparr>requests := requests st @ [url src]\<rparr>) src
      = (Inr None, st\<lparr>requests := requests st @ [url src]\<rparr>)"
  proof (elim disjE exE conjE)
    fix code body assume "reply io = Response code body" "code \<noteq> 200"
    then show ?thesis by (rule resume_status)
  next
    fix e assume "reply io = Raises e" "is_Exception e"
    then show ?thesis by (rule resume_raises)
  qed
  then show ?thesis unfolding fetch_one_miss[OF assms(1)] .
qed

text \<open>
  Claim C5. A fetch that goes to the network and meets a status other than 200, a
  timeout or a network error returns \<open>None\<close>: the value is a returned value, not an
  exception that leaves \<open>_fetch_one\<close>. The log has grown by exactly one GET of the
  URL, so the source was not tried again, and the cache is unchanged. In the acceptance
  loop the pair of such a source contributes nothing: the loop gives the same lists as
  on the input without that pair.
\<close>

theorem failed_fetch_is_absent:
  assumes "cache_hit io st src = None"
    and "(\<exists>code body. reply io = Response code body \<and> code \<noteq> 200)
       \<or> reply io = Raises TimeoutException \<or> reply io = Raises NetworkError"
  shows "fetch_one ex io st src = (Inr None, st\<lparr>requests := requests st @ [url src]\<rparr>)
     \<and> accept (zs1 @ (src, fst (fetch_one ex io st src)) # zs2) [] [] = accept (zs1 @ zs2) [] []"
proof -
  have "(\<exists>code body. reply io = Response code body \<and> code \<noteq> 200)
       \<or> (\<exists>e. reply io = Raises e \<and> is_Exception e)"
    using assms(2) by (elim disjE) (simp_all)
  with assms(1) have f: "fetch_one ex io st src = (Inr None, st\<lparr>requests := requests st @ [url src]\<rparr>)"
    by (rule fetch_one_failure)
  have "\<not> usable (fst (fetch_one ex io st src))" unfolding f by (simp add: usable_def)
  then have "accept (zs1 @ (src, fst (fetch_one ex io st src)) # zs2) [] [] = accept (zs1 @ zs2) [] []"
    by (rule accept_drop_unusable)
  with f show ?thesis by (rule conjI)
qed

theorem failed_fetch_is_absent_witness:
  "fetch_one ex_id (io_status 503) empty_state (rti_sources ! 1)
     = (Inr None, empty_state\<lparr>requests := requests empty_state @ [url (rti_sources ! 1)]\<rparr>)
   \<and> accept ([(rti_sources ! 0, Inr (Some (page 150)))]
         @ (rti_sources ! 1, fst (fetch_one ex_id (io_status 503) empty_state (rti_sources ! 1)))
         # [(rti_sources ! 2, Inr (Some (page 150)))]) [] []
       = accept ([(rti_sources ! 0, Inr (Some (page 150)))] @ [(rti_sources ! 2, Inr (Some (page 150)))]) [] []
   \<and> fetch_one ex_id (io_raises TimeoutException) empty_state (rti_sources ! 1)
     = (Inr None, empty_state\<lparr>requests := requests empty_state @ [url (rti_sources ! 1)]\<rparr>)
   \<and> fetch_one ex_id (io_raises NetworkError) empty_state (rti_sources ! 1)
     = (Inr None, empty_state\<lparr>requests := requests empty_state @ [url (rti_sources ! 1)]\<rparr>)"
proof -
  have m: "cache_hit io empty_state (rti_sources ! 1) = None" for io
    by (simp add: cache_hit_def empty_state_def)
  have a: "(\<exists>code body. reply (io_status 503) = Response code body \<and> code \<noteq> 200)
       \<or> reply (io_status 503) = Raises TimeoutException \<or> reply (io_status 503) = Raises NetworkError"
    by (simp add: io_status_def)
  have b: "(\<exists>code body. reply (io_raises TimeoutException) = Response code body \<and> code \<noteq> 200)
       \<or> reply (io_raises TimeoutException) = Raises TimeoutException
       \<or> reply (io_raises TimeoutException) = Raises NetworkError"
    by (simp add: io_raises_def)
  have c: "(\<exists>code body. reply (io_raises NetworkError) = Response code body \<and> code \<noteq> 200)
       \<or> reply (io_raises NetworkError) = Raises TimeoutException
       \<or> reply (io_raises NetworkError) = Raises NetworkError"
    by (simp add: io_raises_def)
  note t1 = failed_fetch_is_absent[OF m a, of ex_id "[(rti_sources ! 0, Inr (Some (page 150)))]"
     "[(rti_sources ! 2, Inr (Some (page 150)))]"]
  note t2 = failed_fetch_is_absent[OF m b, of ex_id "[]" "[]", THEN conjunct1]
  note t3 = failed_fetch_is_absent[OF m c, of ex_id "[]" "[]", THEN conjunct1]
  from t1 t2 t3 show ?thesis by (intro conjI) (elim conjE, assumption)+
qed

lemma fetch_one_success:
  assumes "cache_hit io st src = None"
    and "reply io = Response 200 body" "ex body = Inr extr" "length extr \<ge> MIN_CONTENT_LEN"
  shows "fetch_one ex io st src =
     (Inr (Some (annotated (label src) (take MAX_CHARS_PER_SOURCE extr))),
      st\<lparr>requests := requests st @ [url src],
         cache := (cache st)(url src \<mapsto> (take MAX_CHARS_PER_SOURCE extr, store_time io))\<rparr>)"
  unfolding fetch_one_miss[OF assms(1)] resume_success[where ex = ex, OF assms(2-4)] by simp

lemma fetch_one_served:
  assumes "cache st (url src) = Some (extr, ts)" "check_time io - ts < CACHE_TTL"
  shows "fetch_one ex io st src = (Inr (Some (annotated (label src) extr)), st)"
  using cache_hit_fresh[OF assms] by (rule fetch_one_hit)

lemma fetch_one_ignores_stale:
  assumes "cache st (url src) = Some (old, ts)" "check_time io - ts \<ge> CACHE_TTL"
  shows "fst (fetch_one ex io st src)
     = fst (fetch_one ex io (st\<lparr>cache := (cache st)(url src := None)\<rparr>) src)"
proof -
  have 1: "cache_hit io st src = None" using assms by (rule cache_hit_expired)
  have 2: "cache_hit io (st\<lparr>cache := (cache st)(url src := None)\<rparr>) src = None"
    by (simp add: cache_hit_def)
  show ?thesis unfolding fetch_one_miss[OF 1] fetch_one_miss[OF 2] by (rule resume_fst)
qed

text \<open>
  Claim C4. First part: after a fetch that went to the network and succeeded, every
  fetch of the same URL whose clock reading is less than 3600 seconds after the stored
  timestamp returns the same extracted text (under the label of the source that asks)
  and leaves the state as it is; in particular the log of GETs does not grow. Second
  part: a cache entry whose age is 3600 seconds or more is not served. The fetch goes
  to the network (one GET is logged), its value is the value it would have had without
  the entry, and when the network fetch succeeds the new text and the new timestamp
  replace the entry.
\<close>

theorem cache_ttl_policy:
  "(cache_hit iof st src = None \<and> reply iof = Response 200 body \<and> ex body = Inr extr
      \<and> length extr \<ge> MIN_CONTENT_LEN \<longrightarrow>
      fetch_one ex iof st src =
        (Inr (Some (annotated (label src) (take MAX_CHARS_PER_SOURCE extr))),
         st\<lparr>requests := requests st @ [url src],
            cache := (cache st)(url src \<mapsto> (take MAX_CHARS_PER_SOURCE extr, store_time iof))\<rparr>)
      \<and> (\<forall>ex2 (io2::fetch_io) (st2::state) (src2::source).
            url src2 = url src
              \<and> cache st2 (url src) = Some (take MAX_CHARS_PER_SOURCE extr, store_time iof)
              \<and> check_time io2 - store_time iof < 3600 \<longrightarrow>
            fetch_one ex2 io2 st2 src2 =
              (Inr (Some (annotated (label src2) (take MAX_CHARS_PER_SOURCE extr))), st2)))
   \<and> (cache st (url src) = Some (old, ts) \<and> check_time io - ts \<ge> 3600 \<longrightarrow>
        fetch_one ex io st src = resume ex io (st\<lparr>requests := requests st @ [url src]\<rparr>) src
        \<and> requests (snd (fetch_one ex io st src)) = requests st @ [url src]
        \<and> fst (fetch_one ex io st src)
            = fst (fetch_one ex io (st\<lparr>cache := (cache st)(url src := None)\<rparr>) src)
        \<and> (reply io = Response 200 body' \<and> ex body' = Inr extr'
              \<and> length extr' \<ge> MIN_CONTENT_LEN \<longrightarrow>
            fetch_one ex io st src =
              (Inr (Some (annotated (label src) (take MAX_CHARS_PER_SOURCE extr'))),
               st\<lparr>requests := requests st @ [url src],
                  cache := (cache st)(url src \<mapsto> (take MAX_CHARS_PER_SOURCE extr', store_time io))\<rparr>)))"
proof (intro conjI impI allI)
  assume h: "cache_hit iof st src = None \<and> reply iof = Response 200 body \<and> ex body = Inr extr
      \<and> length extr \<ge> MIN_CONTENT_LEN"
  then have h1: "cache_hit iof st src = None" and h2: "reply iof = Response 200 body"
    and h3: "ex body = Inr extr" and h4: "length extr \<ge> MIN_CONTENT_LEN"
    by blast+
  from h1 h2 h3 h4 show "fetch_one ex iof st src =
        (Inr (Some (annotated (label src) (take MAX_CHARS_PER_SOURCE extr))),
         st\<lparr>requests := requests st @ [url src],
            cache := (cache st)(url src \<mapsto> (take MAX_CHARS_PER_SOURCE extr, store_time iof))\<rparr>)"
    by (rule fetch_one_success[where ex = ex])
next
  fix ex2 :: "ustring \<Rightarrow> exn + ustring" and io2 :: fetch_io and st2 :: state and src2 :: source
  assume g: "url src2 = url src
              \<and> cache st2 (url src) = Some (take MAX_CHARS_PER_SOURCE extr, store_time iof)
              \<and> check_time io2 - store_time iof < 3600"
  then have g1: "url src2 = url src"
    and g2: "cache st2 (url src) = Some (take MAX_CHARS_PER_SOURCE extr, store_time iof)"
    and g3: "check_time io2 - store_time iof < 3600"
    by blast+
  have c: "cache st2 (url src2) = Some (take MAX_CHARS_PER_SOURCE extr, store_time iof)"
    unfolding g1 by (rule g2)
  have t: "check_time io2 - store_time iof < CACHE_TTL" using g3 by (simp add: CACHE_TTL_def)
  from c t show "fetch_one ex2 io2 st2 src2 =
              (Inr (Some (annotated (label src2) (take MAX_CHARS_PER_SOURCE extr))), st2)"
    by (rule fetch_one_served)
next
  assume e: "cache st (url src) = Some (old, ts) \<and> check_time io - ts \<ge> 3600"
  then have e1: "cache st (url src) = Some (old, ts)" and e2: "check_time io - ts \<ge> CACHE_TTL"
    by (simp_all add: CACHE_TTL_def)
  have m: "cache_hit io st src = None" using e1 e2 by (rule cache_hit_expired)
  show f: "fetch_one ex io st src = resume ex io (st\<lparr>requests := requests st @ [url src]\<rparr>) src"
    using m by (rule fetch_one_miss)
  show "requests (snd (fetch_one ex io st src)) = requests st @ [url src]"
    unfolding f by (simp add: resume_requests)
  show "fst (fetch_one ex io st src)
            = fst (fetch_one ex io (st\<lparr>cache := (cache st)(url src := None)\<rparr>) src)"
    using e1 e2 by (rule fetch_one_ignores_stale)
  assume k: "reply io = Response 200 body' \<and> ex body' = Inr extr'
              \<and> length extr' \<ge> MIN_CONTENT_LEN"
  then have k1: "reply io = Response 200 body'" and k2: "ex body' = Inr extr'"
    and k3: "length extr' \<ge> MIN_CONTENT_LEN"
    by blast+
  from m k1 k2 k3 show "fetch_one ex io st src =
              (Inr (Some (annotated (label src) (take MAX_CHARS_PER_SOURCE extr'))),
               st\<lparr>requests := requests st @ [url src],
                  cache := (cache st)(url src \<mapsto> (take MAX_CHARS_PER_SOURCE extr', store_time io))\<rparr>)"
    by (rule fetch_one_success[where ex = ex])
qed

theorem cache_ttl_policy_witness:
  "fetch_one ex_id (io_at 0 150) empty_state (rti_sources ! 0)
     = (Inr (Some (annotated (label (rti_sources ! 0)) (page 150))), warm_state)
   \<and> fetch_one ex_id (io_at 3599 200) warm_state (rti_sources ! 0)
     = (Inr (Some (annotated (label (rti_sources ! 0)) (page 150))), warm_state)
   \<and> fetch_one ex_id (io_at 3600 200) warm_state (rti_sources ! 0)
     = (Inr (Some (annotated (label (rti_sources ! 0)) (page 200))),
        warm_state\<lparr>requests := requests warm_state @ [url (rti_sources ! 0)],
                   cache := (cache warm_state)(url (rti_sources ! 0) \<mapsto> (page 200, 3600))\<rparr>)"
proof -
  let ?src = "rti_sources ! 0"
  have t150: "take MAX_CHARS_PER_SOURCE (page 150) = page 150"
    by (simp add: MAX_CHARS_PER_SOURCE_def page_def)
  have t200: "take MAX_CHARS_PER_SOURCE (page 200) = page 200"
    by (simp add: MAX_CHARS_PER_SOURCE_def page_def)
  have w: "empty_state\<lparr>requests := requests empty_state @ [url ?src],
         cache := (cache empty_state)(url ?src \<mapsto> (page 150, store_time (io_at 0 150)))\<rparr>
       = warm_state"
    by (simp add: empty_state_def warm_state_def io_at_def)
  have h1: "cache_hit (io_at 0 150) empty_state ?src = None
      \<and> reply (io_at 0 150) = Response 200 (page 150) \<and> ex_id (page 150) = Inr (page 150)
      \<and> length (page 150) \<ge> MIN_CONTENT_LEN"
    by (simp add: cache_hit_def empty_state_def io_at_def ex_id_def page_def MIN_CONTENT_LEN_def)
  note a = cache_ttl_policy[where ex = ex_id and iof = "io_at 0 150" and st = empty_state and src = "?src"
      and body = "page 150" and extr = "page 150", THEN conjunct1, THEN mp, OF h1]
  have 1: "fetch_one ex_id (io_at 0 150) empty_state ?src
     = (Inr (Some (annotated (label ?src) (page 150))), warm_state)"
    using a[THEN conjunct1] unfolding t150 w .
  have h2: "url ?src = url ?src
      \<and> cache warm_state (url ?src) = Some (take MAX_CHARS_PER_SOURCE (page 150), store_time (io_at 0 150))
      \<and> check_time (io_at 3599 200) - store_time (io_at 0 150) < 3600"
    unfolding t150 by (simp add: warm_state_def io_at_def)
  have 2: "fetch_one ex_id (io_at 3599 200) warm_state ?src
     = (Inr (Some (annotated (label ?src) (page 150))), warm_state)"
    using a[THEN conjunct2, THEN spec, THEN spec, THEN spec, THEN spec, THEN mp, OF h2]
    unfolding t150 .
  have h3: "cache warm_state (url ?src) = Some (page 150, 0)
      \<and> check_time (io_at 3600 200) - 0 \<ge> 3600"
    by (simp add: warm_state_def io_at_def)
  have h4: "reply (io_at 3600 200) = Response 200 (page 200) \<and> ex_id (page 200) = Inr (page 200)
      \<and> length (page 200) \<ge> MIN_CONTENT_LEN"
    by (simp add: io_at_def ex_id_def page_def MIN_CONTENT_LEN_def)
  note b = cache_ttl_policy[where ex = ex_id and io = "io_at 3600 200" and st = warm_state and src = "?src"
      and old = "page 150" and ts = 0 and body' = "page 200" and extr' = "page 200",
      THEN conjunct2, THEN mp, OF h3]
  have 3: "fetch_one ex_id (io_at 3600 200) warm_state ?src
     = (Inr (Some (annotated (label ?src) (page 200))),
        warm_state\<lparr>requests := requests warm_state @ [url ?src],
                   cache := (cache warm_state)(url ?src \<mapsto> (page 200, 3600))\<rparr>)"
    using b[THEN conjunct2, THEN conjunct2, THEN conjunct2, THEN mp, OF h4]
    unfolding t200 by (simp add: io_at_def)
  from 1 2 3 show ?thesis by (intro conjI)
qed

section \<open>Claims about the top-level fusion policy\<close>

lemmas query_defs = semantic_retrieve_def first_entry_def ranked_query_def rti_chunk_def
  untagged_chunk_def dominant_intent_def




text \<open>
  Claim C1. Let the engine return the web context and its list of labels. The pipeline,
  whose top-3 retrieval has returned the RAG context, then returns as follows. If the
  web context has 300 characters or more, the fused context is the web context followed
  by the RAG context (each under its banner line), the tag is \<open>WEB+RAG\<close> and
  \<open>sources_used\<close> is the engine's list. If the web context has 299 characters or fewer,
  the empty string included, the fused context holds the RAG context only (under its
  banner), the tag is \<open>RAG\<close> and \<open>sources_used\<close> is the empty list, whatever the
  engine's list was.
\<close>

theorem fusion_threshold_policy:
  assumes "fetch_government_context ex io ord st (dominant_intent (metadatas (query 1)))
             = (Some (web_context, used), st')"
  shows "(semantic_retrieve (query 3) = Inr rag_context \<longrightarrow>
           call_groq_analyze ex io ord st query
             = (Some (Inr (fuse web_context used rag_context)), st'))
    \<and> (length web_context \<ge> 300 \<longrightarrow>
          fuse web_context used rag_context =
            \<lparr>context_source = u ''WEB+RAG'', sources_used = used,
             fused_context =
               u ''=== LIVE DATA FROM OFFICIAL GOVERNMENT PORTALS ==='' @ [10]
               @ web_context @ [10, 10]
               @ u ''=== ADDITIONAL CONTEXT FROM LEGAL KNOWLEDGE BASE ==='' @ [10]
               @ rag_context\<rparr>)
    \<and> (length web_context \<le> 299 \<longrightarrow>
          fuse web_context used rag_context =
            \<lparr>context_source = u ''RAG'', sources_used = [],
             fused_context = u ''=== CONTEXT FROM LEGAL KNOWLEDGE BASE ==='' @ [10] @ rag_context\<rparr>)"
proof (intro conjI impI)
  assume s: "semantic_retrieve (query 3) = Inr rag_context"
  show "call_groq_analyze ex io ord st query
             = (Some (Inr (fuse web_context used rag_context)), st')"
    unfolding call_groq_analyze_def s assms by simp
next
  assume "length web_context \<ge> 300"
  then have "web_context \<noteq> []" "length web_context \<ge> 300" by auto
  then show "fuse web_context used rag_context =
            \<lparr>context_source = u ''WEB+RAG'', sources_used = used,
             fused_context =
               u ''=== LIVE DATA FROM OFFICIAL GOVERNMENT PORTALS ==='' @ [10]
               @ web_context @ [10, 10]
               @ u ''=== ADDITIONAL CONTEXT FROM LEGAL KNOWLEDGE BASE ==='' @ [10]
               @ rag_context\<rparr>"
    by (simp add: fuse_def)
next
  assume "length web_context \<le> 299"
  then have "\<not> length web_context \<ge> 300" by simp
  then show "fuse web_context used rag_context =
            \<lparr>context_source = u ''RAG'', sources_used = [],
             fused_context = u ''=== CONTEXT FROM LEGAL KNOWLEDGE BASE ==='' @ [10] @ rag_context\<rparr>"
    by (simp add: fuse_def)
qed

theorem fusion_threshold_policy_witness:
  "length (annotated (label (rti_sources ! 0)) (page 150) @ SEPARATOR
            @ annotated (label (rti_sources ! 1)) (page 150)) \<ge> 300
   \<and> fst (call_groq_analyze ex_id (\<lambda>i. io_ok 150) [0, 1, 2] empty_state (ranked_query [rti_chunk]))
       = Some (Inr \<lparr>context_source = u ''WEB+RAG'',
               sources_used = [label (rti_sources ! 0), label (rti_sources ! 1)],
               fused_context =
                 u ''=== LIVE DATA FROM OFFICIAL GOVERNMENT PORTALS ==='' @ [10]
                 @ (annotated (label (rti_sources ! 0)) (page 150) @ SEPARATOR
                      @ annotated (label (rti_sources ! 1)) (page 150)) @ [10, 10]
                 @ u ''=== ADDITIONAL CONTEXT FROM LEGAL KNOWLEDGE BASE ==='' @ [10]
                 @ (u ''[RTI '' @ emdash @ u '' Section 6(1)]'' @ [10] @ page 5)\<rparr>)
   \<and> length (annotated (label (rti_sources ! 0)) (page 120)) \<le> 299
   \<and> fst (call_groq_analyze ex_id (\<lambda>i. if i = 0 then io_ok 120 else io_status 404) [0, 1, 2]
            empty_state (ranked_query [rti_chunk]))
       = Some (Inr \<lparr>context_source = u ''RAG'', sources_used = [],
               fused_context = u ''=== CONTEXT FROM LEGAL KNOWLEDGE BASE ==='' @ [10]
                 @ (u ''[RTI '' @ emdash @ u '' Section 6(1)]'' @ [10] @ page 5)\<rparr>)"
proof -
  let ?io1 = "\<lambda>i::nat. io_ok 150"
  let ?io2 = "\<lambda>i::nat. if i = 0 then io_ok 120 else io_status 404"
  let ?q = "ranked_query [rti_chunk]"
  let ?rag = "u ''[RTI '' @ emdash @ u '' Section 6(1)]'' @ [10] @ page 5"
  let ?W1 = "annotated (label (rti_sources ! 0)) (page 150) @ SEPARATOR
            @ annotated (label (rti_sources ! 1)) (page 150)"
  let ?W2 = "annotated (label (rti_sources ! 0)) (page 120)"
  have d: "dominant_intent (metadatas (?q 1)) = u ''RTI''"
    by (simp add: query_defs u_def)
  have r: "semantic_retrieve (?q 3) = Inr ?rag"
    by (simp add: query_defs u_def)
  have e1: "fst (fetch_government_context ex_id ?io1 [0, 1, 2] empty_state (u ''RTI''))
      = Some (?W1, [label (rti_sources ! 0), label (rti_sources ! 1)])"
    by (simp add: eval_defs)
  have e2: "fst (fetch_government_context ex_id ?io2 [0, 1, 2] empty_state (u ''RTI''))
      = Some (?W2, [label (rti_sources ! 0)])"
    by (simp add: eval_defs)
  have h1: "fetch_government_context ex_id ?io1 [0, 1, 2] empty_state (dominant_intent (metadatas (?q 1)))
      = (Some (?W1, [label (rti_sources ! 0), label (rti_sources ! 1)]),
         snd (fetch_government_context ex_id ?io1 [0, 1, 2] empty_state (u ''RTI'')))"
    unfolding d prod_eq_iff fst_conv snd_conv using e1 by (intro conjI refl)
  have h2: "fetch_government_context ex_id ?io2 [0, 1, 2] empty_state (dominant_intent (metadatas (?q 1)))
      = (Some (?W2, [label (rti_sources ! 0)]),
         snd (fetch_government_context ex_id ?io2 [0, 1, 2] empty_state (u ''RTI'')))"
    unfolding d prod_eq_iff fst_conv snd_conv using e2 by (intro conjI refl)
  have l1: "length ?W1 \<ge> 300"
    by (simp add: annotated_def SEPARATOR_def u_def page_def rti_sources_def emdash_def)
  have l2: "length ?W2 \<le> 299"
    by (simp add: annotated_def u_def page_def rti_sources_def emdash_def)
  note t1 = fusion_threshold_policy[where query = "?q" and rag_context = "?rag", OF h1]
  note t2 = fusion_threshold_policy[where query = "?q" and rag_context = "?rag", OF h2]
  have f1: "fuse ?W1 [label (rti_sources ! 0), label (rti_sources ! 1)] ?rag =
       \<lparr>context_source = u ''WEB+RAG'',
               sources_used = [label (rti_sources ! 0), label (rti_sources ! 1)],
               fused_context =
                 u ''=== LIVE DATA FROM OFFICIAL GOVERNMENT PORTALS ==='' @ [10]
                 @ ?W1 @ [10, 10]
                 @ u ''=== ADDITIONAL CONTEXT FROM LEGAL KNOWLEDGE BASE ==='' @ [10]
                 @ ?rag\<rparr>"
    using t1[THEN conjunct2, THEN conjunct1] l1 by (rule mp)
  have f2: "fuse ?W2 [label (rti_sources ! 0)] ?rag =
       \<lparr>context_source = u ''RAG'', sources_used = [],
               fused_context = u ''=== CONTEXT FROM LEGAL KNOWLEDGE BASE ==='' @ [10] @ ?rag\<rparr>"
    using t2[THEN conjunct2, THEN conjunct2] l2 by (rule mp)
  have c1: "fst (call_groq_analyze ex_id ?io1 [0, 1, 2] empty_state ?q)
      = Some (Inr (fuse ?W1 [label (rti_sources ! 0), label (rti_sources ! 1)] ?rag))"
    unfolding t1[THEN conjunct1, THEN mp, OF r] by (rule fst_conv)
  have c2: "fst (call_groq_analyze ex_id ?io2 [0, 1, 2] empty_state ?q)
      = Some (Inr (fuse ?W2 [label (rti_sources ! 0)] ?rag))"
    unfolding t2[THEN conjunct1, THEN mp, OF r] by (rule fst_conv)
  from l1 c1[unfolded f1] l2 c2[unfolded f2] show ?thesis by (intro conjI)
qed

end
